theory Spec2Isabelle
  imports Complex_Main "HOL-Library.Multiset" "HOL-Library.Log_Nat"
begin

section \<open>Data model\<close>

text \<open>
  The rows the components read (\<open>interface Expense\<close> of ExpenseList.tsx, the
  tables of the migration). An amount is the value of the column, of type
  \<open>DECIMAL(10, 2)\<close>: an exact decimal, a rational. The client never computes with
  that decimal: what it holds is a JavaScript number, the double nearest to it
  (\<open>Number\<close> below), and every sum, difference, product and quotient it forms is
  rounded to a double again (section "JavaScript numbers").

  Field names follow the source; a prefix is added where two records would share a
  field name or a name is a HOL constant (\<open>id\<close>).
\<close>

record category =
  name :: string
  color :: string
  icon :: "string option"

record expense =
  expense_id :: string
  user_id :: string
  amount :: rat
  description :: "string option"
  date :: string
  category_id :: "string option"
  expense_categories :: "category option"

section \<open>JavaScript numbers\<close>

text \<open>
  A JavaScript number is an IEEE-754 double. A finite double is modelled as the
  rational it denotes, and an arithmetic operation as the exact operation followed
  by \<open>rd\<close>, the rounding to the nearest double, ties to the even significand: 53
  significant bits, and below 2 to the power -1022 the fixed spacing of the
  subnormal numbers, 2 to the power -1074. Overflow to \<open>Infinity\<close> (beyond about
  1.8e308), \<open>NaN\<close>, the sign of zero and division by zero are not modelled; the
  amounts of this program are decimals below 100000000.
\<close>

definition pow2 :: "int \<Rightarrow> rat" where
  "pow2 e = (if 0 \<le> e then 2 ^ nat e else 1 / 2 ^ nat (- e))"

text \<open>The exponent \<open>e\<close> of a positive \<open>x\<close>: \<open>pow2 e \<le> x < pow2 (e + 1)\<close>.\<close>

definition binade :: "rat \<Rightarrow> int" where
  "binade x = (if 1 \<le> x then bitlen \<lfloor>x\<rfloor> - 1 else - bitlen (\<lceil>1 / x\<rceil> - 1))"

text \<open>The integer nearest to \<open>q\<close>, the even one of the two when \<open>q\<close> is half-way.\<close>

definition round_even :: "rat \<Rightarrow> int" where
  "round_even q =
     (let f = \<lfloor>q\<rfloor>; r = q - of_int f
      in if r < 1 / 2 then f else if 1 / 2 < r then f + 1 else if even f then f else f + 1)"

text \<open>
  The double nearest to \<open>x\<close>: a multiple of the unit in the last place \<open>u\<close> of the
  binade of \<open>x\<close>.
\<close>

definition rd :: "rat \<Rightarrow> rat" where
  "rd x =
     (if x = 0 then 0
      else (let e = max (binade \<bar>x\<bar>) (- 1022); u = pow2 (e - 52)
            in of_int (round_even (x / u)) * u))"

text \<open>\<open>a + b\<close>, \<open>a - b\<close>, \<open>a * b\<close> and \<open>a / b\<close> on doubles.\<close>

definition fadd :: "rat \<Rightarrow> rat \<Rightarrow> rat" where
  "fadd a b = rd (a + b)"

definition fsub :: "rat \<Rightarrow> rat \<Rightarrow> rat" where
  "fsub a b = rd (a - b)"

definition fmul :: "rat \<Rightarrow> rat \<Rightarrow> rat" where
  "fmul a b = rd (a * b)"

definition fdiv :: "rat \<Rightarrow> rat \<Rightarrow> rat" where
  "fdiv a b = rd (a / b)"

text \<open>
  \<^verbatim>\<open>Number(row.amount)\<close>: the column's decimal arrives in the JSON of the response
  and is read as the double nearest to it; \<open>Number\<close> of a number is that number.
\<close>

definition Number :: "rat \<Rightarrow> rat" where
  "Number x = rd x"

section \<open>Aggregator (Dashboard.tsx, fetchDashboardData)\<close>

subsection \<open>Total spend\<close>

text \<open>\<^verbatim>\<open>expenses.reduce((sum, exp) => sum + Number(exp.amount), 0)\<close>\<close>

definition sum_amounts :: "expense list \<Rightarrow> rat" where
  "sum_amounts expenses = foldl (\<lambda>acc e. fadd acc (Number (amount e))) 0 expenses"

definition totalExpenses :: "expense list \<Rightarrow> rat" where
  "totalExpenses expenses = sum_amounts expenses"

subsection \<open>Category summary\<close>

text \<open>
  A JavaScript \<open>Map\<close> keeps its keys in insertion order, and \<open>set\<close> on a key that is
  present replaces the value where the key stands: an association list, updated in
  place or extended at the end.
\<close>

type_synonym 'v js_map = "(string \<times> 'v) list"

fun Map_get :: "'v js_map \<Rightarrow> string \<Rightarrow> 'v option" where
  "Map_get [] k = None"
| "Map_get ((k', v) # m) k = (if k' = k then Some v else Map_get m k)"

fun Map_set :: "'v js_map \<Rightarrow> string \<Rightarrow> 'v \<Rightarrow> 'v js_map" where
  "Map_set [] k v = [(k, v)]"
| "Map_set ((k', v') # m) k v =
     (if k' = k then (k, v) # m else (k', v') # Map_set m k v)"

text \<open>
  \<^verbatim>\<open>x?.f || d\<close> on a string field: \<open>d\<close> when the object is null, and also when the
  field is the empty string (the only falsy string).
\<close>

definition or_default :: "string option \<Rightarrow> string \<Rightarrow> string" where
  "or_default x d = (case x of None \<Rightarrow> d | Some s \<Rightarrow> if s = [] then d else s)"

definition category_of :: "expense \<Rightarrow> string" where
  "category_of e = or_default (map_option name (expense_categories e)) ''Other''"

definition color_of :: "expense \<Rightarrow> string" where
  "color_of e = or_default (map_option color (expense_categories e)) ''#6B7280''"

record bucket =
  b_amount :: rat
  b_color :: string

text \<open>The body of \<^verbatim>\<open>expenses.forEach((exp) => { ... })\<close>.\<close>

definition categoryStep :: "bucket js_map \<Rightarrow> expense \<Rightarrow> bucket js_map" where
  "categoryStep categoryMap e =
     (let category = category_of e;
          color = color_of e;
          current = (case Map_get categoryMap category of
                       Some b \<Rightarrow> b
                     | None \<Rightarrow> \<lparr>b_amount = 0, b_color = color\<rparr>)
      in Map_set categoryMap category
           \<lparr>b_amount = fadd (b_amount current) (Number (amount e)), b_color = color\<rparr>)"

definition categoryMap_of :: "expense list \<Rightarrow> bucket js_map" where
  "categoryMap_of expenses = foldl categoryStep [] expenses"

record summary_entry =
  cs_category :: string
  cs_amount :: rat
  cs_color :: string

definition categorySummary :: "expense list \<Rightarrow> summary_entry list" where
  "categorySummary expenses =
     map (\<lambda>(category, data).
            \<lparr>cs_category = category, cs_amount = b_amount data, cs_color = b_color data\<rparr>)
         (categoryMap_of expenses)"

subsection \<open>Auxiliary measure of the category map\<close>

text \<open>
  The amount the map holds for a key, 0 for a key it does not have: used only to
  state the loop invariant of the category summary.
\<close>

definition held :: "bucket js_map \<Rightarrow> string \<Rightarrow> rat" where
  "held m k = (case Map_get m k of None \<Rightarrow> 0 | Some b \<Rightarrow> b_amount b)"

section \<open>Budget evaluator (BudgetTracker.tsx)\<close>

text \<open>A row of the table \<open>budgets\<close>; \<open>month\<close> is the \<open>DATE\<close> key as the client sends it.\<close>

record budget_row =
  budget_user_id :: string
  month :: string
  limit_amount :: rat

text \<open>
  \<^verbatim>\<open>budget ? (monthlySpending / Number(budget.limit_amount)) * 100 : 0\<close>:
  a division and a multiplication of doubles, each rounded. \<open>monthlySpending\<close> is
  the component's state, a double already. A limit of 0, where JavaScript gives
  \<open>Infinity\<close> or \<open>NaN\<close> and HOL gives 0, is outside what is proved below (the limit
  is positive there).
\<close>

definition percentage :: "budget_row option \<Rightarrow> rat \<Rightarrow> rat" where
  "percentage budget monthlySpending =
     (case budget of
        Some b \<Rightarrow> fmul (fdiv monthlySpending (Number (limit_amount b))) 100
      | None \<Rightarrow> 0)"

definition isOverBudget :: "budget_row option \<Rightarrow> rat \<Rightarrow> bool" where
  "isOverBudget budget monthlySpending \<longleftrightarrow> percentage budget monthlySpending > 100"

definition isNearLimit :: "budget_row option \<Rightarrow> rat \<Rightarrow> bool" where
  "isNearLimit budget monthlySpending \<longleftrightarrow>
     percentage budget monthlySpending > 80 \<and> percentage budget monthlySpending \<le> 100"

text \<open>
  What the card renders: without a budget the "No budget set" text; with one, the
  progress bar (\<^verbatim>\<open>Math.min(percentage, 100)\<close>), the percentage label and the
  alerts, in the order of the JSX. The amounts are the numbers passed to
  \<open>toFixed\<close>, before formatting: \<^verbatim>\<open>monthlySpending - Number(budget.limit_amount)\<close>
  and \<^verbatim>\<open>Number(budget.limit_amount) - monthlySpending\<close>.
\<close>

datatype alert = Exceeded rat | Approaching rat

datatype budget_view =
  NoBudgetSet
  | BudgetPanel (progress: rat) (percent_used: rat) (alerts: "alert list")

definition render_budget :: "budget_row option \<Rightarrow> rat \<Rightarrow> budget_view" where
  "render_budget budget monthlySpending =
     (case budget of
        None \<Rightarrow> NoBudgetSet
      | Some b \<Rightarrow>
          BudgetPanel
            (min (percentage budget monthlySpending) 100)
            (percentage budget monthlySpending)
            ((if isOverBudget budget monthlySpending
              then [Exceeded (fsub monthlySpending (Number (limit_amount b)))] else []) @
             (if isNearLimit budget monthlySpending \<and> \<not> isOverBudget budget monthlySpending
              then [Approaching (fsub (Number (limit_amount b)) monthlySpending)] else [])))"

section \<open>The JavaScript runtime: strings and \<open>Date\<close>\<close>

subsection \<open>Decimal strings\<close>

definition digit_char :: "nat \<Rightarrow> char" where
  "digit_char d = ''0123456789'' ! (d mod 10)"

fun string_of_nat :: "nat \<Rightarrow> string" where
  "string_of_nat n =
     (if n < 10 then [digit_char n] else string_of_nat (n div 10) @ [digit_char (n mod 10)])"

declare string_of_nat.simps [simp del]

text \<open>\<open>String(n)\<close> for an integer \<open>n\<close>.\<close>

definition string_of_int :: "int \<Rightarrow> string" where
  "string_of_int i =
     (if i < 0 then CHR ''-'' # string_of_nat (nat (- i)) else string_of_nat (nat i))"

definition padStart :: "nat \<Rightarrow> char \<Rightarrow> string \<Rightarrow> string" where
  "padStart n c s = replicate (n - length s) c @ s"

definition is_digit :: "char \<Rightarrow> bool" where
  "is_digit c \<longleftrightarrow> c \<in> set ''0123456789''"

definition digit_val :: "char \<Rightarrow> nat" where
  "digit_val c = of_char c - 48"

definition nat_of_digits :: "string \<Rightarrow> nat" where
  "nat_of_digits s = foldl (\<lambda>n c. 10 * n + digit_val c) 0 s"

subsection \<open>Numbers and \<open>parseFloat\<close>\<close>

text \<open>
  A JavaScript number that came from a string: \<open>NaN\<close>, an infinity, or a finite
  value. The finite value is kept as the decimal that the string denotes: the
  program compares it with 0 and sends it to the store, where it arrives as
  decimal text again. Its rounding to a double, and the overflow and underflow of
  very long exponents, are not modelled here.
\<close>

datatype js_number = NaN | Finite rat | PosInfinity | NegInfinity

definition isNaN :: "js_number \<Rightarrow> bool" where
  "isNaN x \<longleftrightarrow> x = NaN"

text \<open>\<^verbatim>\<open>x <= 0\<close> and \<^verbatim>\<open>x > 0\<close>; every comparison with \<open>NaN\<close> is false.\<close>

definition le_zero :: "js_number \<Rightarrow> bool" where
  "le_zero x = (case x of Finite r \<Rightarrow> r \<le> 0 | NegInfinity \<Rightarrow> True | _ \<Rightarrow> False)"

definition gt_zero :: "js_number \<Rightarrow> bool" where
  "gt_zero x = (case x of Finite r \<Rightarrow> r > 0 | PosInfinity \<Rightarrow> True | _ \<Rightarrow> False)"

text \<open>
  \<open>parseFloat\<close>: leading white space is skipped, then the longest prefix that is a
  \<open>StrDecimalLiteral\<close> is read (sign, \<open>Infinity\<close> or digits with an optional
  fraction and exponent); what follows is ignored; with no such prefix the result
  is \<open>NaN\<close>. White space is the ASCII set (tab, line feed, vertical tab, form feed,
  carriage return, space).
\<close>

definition is_space :: "char \<Rightarrow> bool" where
  "is_space c \<longleftrightarrow> of_char c \<in> {9::nat, 10, 11, 12, 13, 32}"

definition scale10 :: "rat \<Rightarrow> int \<Rightarrow> rat" where
  "scale10 x e = (if e \<ge> 0 then x * 10 ^ nat e else x / 10 ^ nat (- e))"

definition exponent_part :: "string \<Rightarrow> int" where
  "exponent_part s =
     (case s of
        [] \<Rightarrow> 0
      | c # r \<Rightarrow>
          if c = CHR ''e'' \<or> c = CHR ''E'' then
            (let neg = (r \<noteq> [] \<and> hd r = CHR ''-'');
                 r' = (if r \<noteq> [] \<and> (hd r = CHR ''-'' \<or> hd r = CHR ''+'') then tl r else r);
                 ds = takeWhile is_digit r'
             in if ds = [] then 0
                else if neg then - int (nat_of_digits ds) else int (nat_of_digits ds))
          else 0)"

definition unsigned_literal :: "string \<Rightarrow> js_number" where
  "unsigned_literal s =
     (if take 8 s = ''Infinity'' then PosInfinity
      else
        (let ip = takeWhile is_digit s;
             r1 = dropWhile is_digit s;
             has_dot = (r1 \<noteq> [] \<and> hd r1 = CHR ''.'');
             fp = (if has_dot then takeWhile is_digit (tl r1) else []);
             r2 = (if has_dot then dropWhile is_digit (tl r1) else r1)
         in if ip = [] \<and> fp = [] then NaN
            else Finite (scale10 (of_nat (nat_of_digits (ip @ fp)) / 10 ^ length fp)
                           (exponent_part r2))))"

definition negate :: "js_number \<Rightarrow> js_number" where
  "negate x =
     (case x of NaN \<Rightarrow> NaN | Finite r \<Rightarrow> Finite (- r)
      | PosInfinity \<Rightarrow> NegInfinity | NegInfinity \<Rightarrow> PosInfinity)"

definition parseFloat :: "string \<Rightarrow> js_number" where
  "parseFloat s =
     (let t = dropWhile is_space s
      in case t of
           [] \<Rightarrow> NaN
         | c # r \<Rightarrow>
             if c = CHR ''-'' then negate (unsigned_literal r)
             else if c = CHR ''+'' then unsigned_literal r
             else unsigned_literal t)"

subsection \<open>Time values and the calendar\<close>

text \<open>
  A \<open>Date\<close> holds a time value: milliseconds since 1970-01-01T00:00:00Z. The
  calendar functions are those of ECMAScript (\<open>Day\<close>, \<open>TimeWithinDay\<close>,
  \<open>YearFromTime\<close>, \<open>MonthFromTime\<close>, \<open>DateFromTime\<close>, \<open>MakeDay\<close>) for the proleptic
  Gregorian calendar, computed by the usual era arithmetic. Months are 1 to 12 in
  \<open>civil_from_days\<close> and \<open>days_from_civil\<close>; the \<open>Date\<close> methods below subtract or
  add the 1 that JavaScript's 0-based months need.
\<close>

definition msPerDay :: int where
  "msPerDay = 86400000"

definition msPerMinute :: int where
  "msPerMinute = 60000"

definition Day :: "int \<Rightarrow> int" where
  "Day t = t div msPerDay"

definition TimeWithinDay :: "int \<Rightarrow> int" where
  "TimeWithinDay t = t mod msPerDay"

definition days_from_civil :: "int \<Rightarrow> int \<Rightarrow> int \<Rightarrow> int" where
  "days_from_civil y m d =
     (let y' = (if m \<le> 2 then y - 1 else y);
          era = y' div 400;
          yoe = y' mod 400;
          mp = (if m > 2 then m - 3 else m + 9);
          doy = (153 * mp + 2) div 5 + d - 1;
          doe = yoe * 365 + yoe div 4 - yoe div 100 + doy
      in era * 146097 + doe - 719468)"

definition civil_from_days :: "int \<Rightarrow> int \<times> int \<times> int" where
  "civil_from_days z =
     (let z' = z + 719468;
          era = z' div 146097;
          doe = z' mod 146097;
          yoe = (doe - doe div 1460 + doe div 36524 - doe div 146096) div 365;
          y = yoe + era * 400;
          doy = doe - (365 * yoe + yoe div 4 - yoe div 100);
          mp = (5 * doy + 2) div 153;
          d = doy - (153 * mp + 2) div 5 + 1;
          m = (if mp < 10 then mp + 3 else mp - 9)
      in (if m \<le> 2 then y + 1 else y, m, d))"

definition is_leap :: "int \<Rightarrow> bool" where
  "is_leap y \<longleftrightarrow> y mod 4 = 0 \<and> (y mod 100 \<noteq> 0 \<or> y mod 400 = 0)"

definition days_in_month :: "int \<Rightarrow> int \<Rightarrow> int" where
  "days_in_month y m =
     (if m = 2 then (if is_leap y then 29 else 28)
      else if m \<in> {4, 6, 9, 11} then 30 else 31)"

text \<open>
  Two auxiliary functions for the correctness of \<open>civil_from_days\<close>: its year of
  the era, and the day of the era on which year \<open>j\<close> of the era starts (eras are 400
  years of 146097 days, their years start on 1 March).
\<close>

definition yoe_of :: "int \<Rightarrow> int" where
  "yoe_of doe = (doe - doe div 1460 + doe div 36524 - doe div 146096) div 365"

definition year_start :: "int \<Rightarrow> int" where
  "year_start j = 365 * j + j div 4 - j div 100 + j div 400"

subsection \<open>Local time\<close>

text \<open>
  A time zone gives, in the minutes that \<open>getTimezoneOffset()\<close> returns (from local
  time to UTC, positive west of Greenwich: 300 in New York in winter, 240 in
  summer, -330 in Kolkata), the offset in force at an instant, and the offset
  that \<open>UTC(t)\<close> applies to a local time value (for a local time that a change of
  offset skips or repeats, the offset before the change).
\<close>

record zone =
  offset_at :: "int \<Rightarrow> int"
  offset_for_local :: "int \<Rightarrow> int"

definition LocalTime_in :: "zone \<Rightarrow> int \<Rightarrow> int" where
  "LocalTime_in z t = t - offset_at z t * msPerMinute"

definition UTC_in :: "zone \<Rightarrow> int \<Rightarrow> int" where
  "UTC_in z t = t + offset_for_local z t * msPerMinute"

text \<open>
  A zone whose offset never changes is the one number \<open>tz\<close>; the functions below
  that take a number \<open>tz\<close> are those of the runtime in such a zone.
\<close>

definition fixed_zone :: "int \<Rightarrow> zone" where
  "fixed_zone tz = \<lparr>offset_at = (\<lambda>t. tz), offset_for_local = (\<lambda>t. tz)\<rparr>"

definition LocalTime :: "int \<Rightarrow> int \<Rightarrow> int" where
  "LocalTime tz t = t - tz * msPerMinute"

definition UTC :: "int \<Rightarrow> int \<Rightarrow> int" where
  "UTC tz t = t + tz * msPerMinute"

definition getFullYear :: "int \<Rightarrow> int \<Rightarrow> int" where
  "getFullYear tz t = (case civil_from_days (Day (LocalTime tz t)) of (y, m, d) \<Rightarrow> y)"

definition getMonth :: "int \<Rightarrow> int \<Rightarrow> int" where
  "getMonth tz t = (case civil_from_days (Day (LocalTime tz t)) of (y, m, d) \<Rightarrow> m - 1)"

definition getDate :: "int \<Rightarrow> int \<Rightarrow> int" where
  "getDate tz t = (case civil_from_days (Day (LocalTime tz t)) of (y, m, d) \<Rightarrow> d)"

text \<open>\<open>MakeDay(year, month, date)\<close>: the day number of the first of the month, plus \<open>date - 1\<close>.\<close>

definition MakeDay :: "int \<Rightarrow> int \<Rightarrow> int \<Rightarrow> int" where
  "MakeDay year mon dt =
     days_from_civil (year + mon div 12) (mon mod 12 + 1) 1 + dt - 1"

text \<open>
  \<^verbatim>\<open>new Date(year, month, date)\<close>: local midnight of that day. A year from 0 to 99
  means 1900 + year.
\<close>

definition new_Date_ymd :: "int \<Rightarrow> int \<Rightarrow> int \<Rightarrow> int \<Rightarrow> int" where
  "new_Date_ymd tz year mon dt =
     (let yr = (if 0 \<le> year \<and> year \<le> 99 then 1900 + year else year)
      in UTC tz (MakeDay yr mon dt * msPerDay))"

text \<open>
  \<^verbatim>\<open>d.getDate()\<close> and \<^verbatim>\<open>d.setDate(dt)\<close> in a zone. \<open>setDate\<close> builds the day
  \<open>MakeDay(YearFromTime(t), MonthFromTime(t), dt)\<close> of the local calendar, at the
  local time of day of \<open>t\<close>, and takes it back to UTC with the offset of that local
  time. A \<open>dt\<close> below 1 or beyond the month's length runs into the neighbouring
  months.
\<close>

definition getDate_in :: "zone \<Rightarrow> int \<Rightarrow> int" where
  "getDate_in z t = (case civil_from_days (Day (LocalTime_in z t)) of (y, m, d) \<Rightarrow> d)"

definition setDate :: "zone \<Rightarrow> int \<Rightarrow> int \<Rightarrow> int" where
  "setDate z t dt =
     (let lt = LocalTime_in z t
      in case civil_from_days (Day lt) of (y, m, d) \<Rightarrow>
           UTC_in z (MakeDay y (m - 1) dt * msPerDay + TimeWithinDay lt))"

text \<open>
  \<^verbatim>\<open>d.toISOString().split("T")[0]\<close>: the UTC calendar date of the time value,
  \<open>YYYY-MM-DD\<close>, with a sign and six digits for a year outside 0 to 9999.
\<close>

definition iso_year :: "int \<Rightarrow> string" where
  "iso_year y =
     (if 0 \<le> y \<and> y \<le> 9999 then padStart 4 CHR ''0'' (string_of_nat (nat y))
      else (if y < 0 then CHR ''-'' else CHR ''+'') # padStart 6 CHR ''0'' (string_of_nat (nat \<bar>y\<bar>)))"

definition iso_date :: "int \<times> int \<times> int \<Rightarrow> string" where
  "iso_date ymd =
     (case ymd of (y, m, d) \<Rightarrow>
        iso_year y @ ''-'' @ padStart 2 CHR ''0'' (string_of_nat (nat m)) @ ''-'' @
        padStart 2 CHR ''0'' (string_of_nat (nat d)))"

definition toISODate :: "int \<Rightarrow> string" where
  "toISODate t = iso_date (civil_from_days (Day t))"

text \<open>The \<open>YYYY-MM-DD\<close> string of the UTC calendar day with day number \<open>n\<close>.\<close>

definition utc_day_string :: "int \<Rightarrow> string" where
  "utc_day_string n = iso_date (civil_from_days n)"

text \<open>
  \<^verbatim>\<open>new Date(s)\<close> for a date-only string \<open>YYYY-MM-DD\<close>, the form in which a \<open>DATE\<close>
  column arrives: midnight UTC of that day. Any other string, and a day that the
  month does not have, is read as an invalid date (\<open>None\<close>; the time value \<open>NaN\<close>).
\<close>

definition Date_parse :: "string \<Rightarrow> int option" where
  "Date_parse s =
     (if length s = 10 \<and> s ! 4 = CHR ''-'' \<and> s ! 7 = CHR ''-'' \<and>
         (\<forall>c \<in> set (take 4 s @ take 2 (drop 5 s) @ drop 8 s). is_digit c)
      then
        (let y = int (nat_of_digits (take 4 s));
             m = int (nat_of_digits (take 2 (drop 5 s)));
             d = int (nat_of_digits (drop 8 s))
         in if 1 \<le> m \<and> m \<le> 12 \<and> 1 \<le> d \<and> d \<le> days_in_month y m
            then Some (days_from_civil y m d * msPerDay) else None)
      else None)"

text \<open>\<^verbatim>\<open>a >= b\<close> on a \<open>Date\<close> and a valid \<open>Date\<close>: the time values are compared; \<open>NaN\<close> compares false.\<close>

definition date_ge :: "int option \<Rightarrow> int \<Rightarrow> bool" where
  "date_ge a b = (case a of None \<Rightarrow> False | Some t \<Rightarrow> t \<ge> b)"

subsection \<open>Monthly spend and daily trend (Dashboard.tsx)\<close>

text \<open>\<^verbatim>\<open>new Date(now.getFullYear(), now.getMonth(), 1)\<close>\<close>

definition firstDayOfMonth :: "int \<Rightarrow> int \<Rightarrow> int" where
  "firstDayOfMonth tz now = new_Date_ymd tz (getFullYear tz now) (getMonth tz now) 1"

definition monthlyExpenses :: "int \<Rightarrow> int \<Rightarrow> expense list \<Rightarrow> rat" where
  "monthlyExpenses tz now expenses =
     sum_amounts (filter (\<lambda>e. date_ge (Date_parse (date e)) (firstDayOfMonth tz now)) expenses)"

text \<open>
  \<^verbatim>\<open>Array.from({ length: 7 }, (_, i) => { const date = new Date();
  date.setDate(date.getDate() - (6 - i)); return date.toISOString().split("T")[0]; })\<close>.
  The seven calls of \<open>new Date()\<close> are taken at the one instant \<open>now\<close>.
\<close>

definition last7Days_in :: "zone \<Rightarrow> int \<Rightarrow> string list" where
  "last7Days_in z now =
     map (\<lambda>i. toISODate (setDate z now (getDate_in z now - (6 - int i)))) [0..<7]"

record trend_entry =
  td_date :: string
  td_amount :: rat

text \<open>
  \<^verbatim>\<open>last7Days.map((date) => ({ date, amount: expenses.filter((exp) => exp.date
  === date).reduce((sum, exp) => sum + Number(exp.amount), 0) }))\<close>
\<close>

definition dailyTrend_in :: "zone \<Rightarrow> int \<Rightarrow> expense list \<Rightarrow> trend_entry list" where
  "dailyTrend_in z now expenses =
     map (\<lambda>d. \<lparr>td_date = d, td_amount = sum_amounts (filter (\<lambda>e. date e = d) expenses)\<rparr>)
         (last7Days_in z now)"

text \<open>The chart in a zone of constant offset \<open>tz\<close>.\<close>

definition last7Days :: "int \<Rightarrow> int \<Rightarrow> string list" where
  "last7Days tz now = last7Days_in (fixed_zone tz) now"

definition dailyTrend :: "int \<Rightarrow> int \<Rightarrow> expense list \<Rightarrow> trend_entry list" where
  "dailyTrend tz now expenses = dailyTrend_in (fixed_zone tz) now expenses"

subsection \<open>Monthly spend of the budget card (BudgetTracker.tsx, fetchMonthlySpending)\<close>

text \<open>
  \<^verbatim>\<open>`${now.getFullYear()}-${String(now.getMonth() + 1).padStart(2, "0")}-01`\<close>,
  the string that fetchBudget, fetchMonthlySpending and handleSetBudget build.
\<close>

definition month_key :: "int \<Rightarrow> int \<Rightarrow> string" where
  "month_key tz now =
     string_of_int (getFullYear tz now) @ ''-'' @
     padStart 2 CHR ''0'' (string_of_int (getMonth tz now + 1)) @ ''-01''"

text \<open>
  The filter \<^verbatim>\<open>.gte("date", firstDayOfMonth)\<close> runs in the database on the \<open>DATE\<close>
  column: a comparison of calendar days. Both sides are read as dates (their day
  numbers); a row whose date cannot be read does not match.
\<close>

definition date_gte :: "string \<Rightarrow> string \<Rightarrow> bool" where
  "date_gte d bound =
     (case (Date_parse d, Date_parse bound) of
        (Some a, Some b) \<Rightarrow> Day a \<ge> Day b
      | _ \<Rightarrow> False)"

definition fetchMonthlySpending :: "int \<Rightarrow> int \<Rightarrow> expense list \<Rightarrow> rat" where
  "fetchMonthlySpending tz now rows =
     sum_amounts (filter (\<lambda>e. date_gte (date e) (month_key tz now)) rows)"

section \<open>The store and the client's calls\<close>

text \<open>
  The tables of the migration that the components use. A row of \<open>expenses\<close> is kept
  in the shape the client reads it; the embedded \<open>expense_categories\<close> is filled in
  by the select from the table of categories (by \<open>category_id\<close>).
\<close>

record store =
  tbl_budgets :: "budget_row list"
  tbl_expenses :: "expense list"
  tbl_categories :: "(string \<times> category) list"

text \<open>
  What one run of a handler meets outside the component: the clock and the zone,
  the signed-in user (\<open>supabase.auth.getUser()\<close>, also the \<open>auth.uid()\<close> of the
  row-level-security policies), whether the store refuses the mutation or the
  query of this run (network, policy, constraint) and with which message, and the
  id the store gives a new row.
\<close>

record env =
  env_now :: int
  env_tz :: int
  env_user :: "string option"
  env_mutation_fails :: bool
  env_query_fails :: bool
  env_error_message :: string
  env_new_id :: string

text \<open>What a handler does that can be seen from outside, in the order it does it.\<close>

datatype effect =
    GetUser
  | UpsertBudget string string js_number
  | InsertExpense string js_number string string string
  | UpdateExpense string js_number string string string
  | DeleteExpense string
  | SelectBudget string
  | SelectMonthlySpending string
  | SelectExpensesPage
  | SelectAllExpenses
  | SelectCategories
  | ToastError string
  | ToastSuccess string
  | CloseDialog

definition is_mutation :: "effect \<Rightarrow> bool" where
  "is_mutation f =
     (case f of UpsertBudget u m l \<Rightarrow> True | InsertExpense u a d c dt \<Rightarrow> True
      | UpdateExpense i a d c dt \<Rightarrow> True | DeleteExpense i \<Rightarrow> True | _ \<Rightarrow> False)"

definition is_select :: "effect \<Rightarrow> bool" where
  "is_select f =
     (case f of SelectBudget m \<Rightarrow> True | SelectMonthlySpending m \<Rightarrow> True
      | SelectExpensesPage \<Rightarrow> True | SelectAllExpenses \<Rightarrow> True | SelectCategories \<Rightarrow> True
      | _ \<Rightarrow> False)"

subsection \<open>Row-level security and the selects\<close>

text \<open>The policies \<open>USING (auth.uid() = user_id)\<close>: a session sees its own rows.\<close>

definition own_expenses :: "string option \<Rightarrow> store \<Rightarrow> expense list" where
  "own_expenses uid st = filter (\<lambda>r. Some (user_id r) = uid) (tbl_expenses st)"

definition own_budgets :: "string option \<Rightarrow> store \<Rightarrow> budget_row list" where
  "own_budgets uid st = filter (\<lambda>r. Some (budget_user_id r) = uid) (tbl_budgets st)"

definition join_category :: "store \<Rightarrow> expense \<Rightarrow> expense" where
  "join_category st r =
     r\<lparr>expense_categories :=
         (case category_id r of None \<Rightarrow> None | Some c \<Rightarrow> map_of (tbl_categories st) c)\<rparr>"

text \<open>
  \<^verbatim>\<open>.order("date", { ascending: false })\<close>: by calendar day, latest first. Rows of
  one day come in an order the database chooses; here, the reverse of the table's.
\<close>

definition date_sort_key :: "string \<Rightarrow> int" where
  "date_sort_key d = (case Date_parse d of Some t \<Rightarrow> t | None \<Rightarrow> 0)"

definition order_date_desc :: "expense list \<Rightarrow> expense list" where
  "order_date_desc rows = rev (sort_key (\<lambda>e. date_sort_key (date e)) rows)"

text \<open>The select of the dashboard (all rows) and of the expense list (\<^verbatim>\<open>.limit(50)\<close>).\<close>

definition select_all_expenses :: "string option \<Rightarrow> store \<Rightarrow> expense list" where
  "select_all_expenses uid st = order_date_desc (map (join_category st) (own_expenses uid st))"

definition select_expenses_page :: "string option \<Rightarrow> store \<Rightarrow> expense list" where
  "select_expenses_page uid st = take 50 (select_all_expenses uid st)"

text \<open>
  \<^verbatim>\<open>.from("budgets").select("*").eq("month", month).maybeSingle()\<close>: the row, when
  there is exactly one.
\<close>

definition select_budget :: "string option \<Rightarrow> store \<Rightarrow> string \<Rightarrow> budget_row option" where
  "select_budget uid st m =
     (case filter (\<lambda>r. month r = m) (own_budgets uid st) of [r] \<Rightarrow> Some r | _ \<Rightarrow> None)"

subsection \<open>The upsert of a budget\<close>

text \<open>
  \<^verbatim>\<open>.upsert({ user_id, month, limit_amount }, { onConflict: "user_id,month" })\<close>:
  \<open>INSERT ... ON CONFLICT (user_id, month) DO UPDATE\<close>. The row with the key, if
  there is one, gets the new limit; otherwise the row is added. A limit that is
  not a finite number cannot be stored (\<open>limit_amount\<close> is \<open>NOT NULL\<close>, and JSON has
  no infinity), and a store that refuses the call leaves the table as it was.
\<close>

definition same_key :: "string \<Rightarrow> string \<Rightarrow> budget_row \<Rightarrow> bool" where
  "same_key u m r \<longleftrightarrow> budget_user_id r = u \<and> month r = m"

fun upsert_row :: "budget_row \<Rightarrow> budget_row list \<Rightarrow> budget_row list" where
  "upsert_row new [] = [new]"
| "upsert_row new (r # rs) =
     (if same_key (budget_user_id new) (month new) r
      then r\<lparr>limit_amount := limit_amount new\<rparr> # rs
      else r # upsert_row new rs)"

definition upsert_budget :: "env \<Rightarrow> string \<Rightarrow> string \<Rightarrow> js_number \<Rightarrow> store \<Rightarrow> store option" where
  "upsert_budget e u m l st =
     (case l of
        Finite v \<Rightarrow>
          if env_mutation_fails e \<or> env_user e \<noteq> Some u then None
          else Some (st\<lparr>tbl_budgets :=
                 upsert_row \<lparr>budget_user_id = u, month = m, limit_amount = v\<rparr> (tbl_budgets st)\<rparr>)
      | _ \<Rightarrow> None)"

text \<open>The constraint \<open>UNIQUE(user_id, month)\<close> of the table.\<close>

definition unique_month :: "budget_row list \<Rightarrow> bool" where
  "unique_month rows \<longleftrightarrow> distinct (map (\<lambda>r. (budget_user_id r, month r)) rows)"

section \<open>BudgetTracker.tsx: the handlers\<close>

text \<open>
  The component's state. The text of the input field is the argument of
  handleSetBudget (that fetchBudget also prefills it is not modelled).
\<close>

record budget_tracker =
  bt_budget :: "budget_row option"
  bt_monthlySpending :: rat
  bt_dialogOpen :: bool

definition fetchBudget :: "env \<Rightarrow> store \<Rightarrow> budget_tracker \<Rightarrow> budget_tracker \<times> effect list" where
  "fetchBudget e st ui =
     (let m = month_key (env_tz e) (env_now e);
          data = (if env_query_fails e then None else select_budget (env_user e) st m)
      in (case data of None \<Rightarrow> ui | Some row \<Rightarrow> ui\<lparr>bt_budget := Some row\<rparr>,
          [SelectBudget m]))"

definition fetchMonthlySpendingBT :: "env \<Rightarrow> store \<Rightarrow> budget_tracker \<Rightarrow> budget_tracker \<times> effect list" where
  "fetchMonthlySpendingBT e st ui =
     (let m = month_key (env_tz e) (env_now e)
      in (if env_query_fails e then ui
          else ui\<lparr>bt_monthlySpending :=
                   fetchMonthlySpending (env_tz e) (env_now e) (own_expenses (env_user e) st)\<rparr>,
          [SelectMonthlySpending m]))"

definition handleSetBudget ::
  "env \<Rightarrow> string \<Rightarrow> store \<times> budget_tracker \<Rightarrow> (store \<times> budget_tracker) \<times> effect list" where
  "handleSetBudget e budgetAmount s =
     (case s of (st, ui) \<Rightarrow>
        let amount = parseFloat budgetAmount
        in if isNaN amount \<or> le_zero amount
           then ((st, ui), [ToastError ''Please enter a valid amount''])
           else
             let m = month_key (env_tz e) (env_now e)
             in case env_user e of
                  None \<Rightarrow> ((st, ui), [GetUser])
                | Some u \<Rightarrow>
                    (case upsert_budget e u m amount st of
                       None \<Rightarrow>
                         ((st, ui),
                          [GetUser, UpsertBudget u m amount, ToastError ''Failed to set budget''])
                     | Some st' \<Rightarrow>
                         (case fetchBudget e st' (ui\<lparr>bt_dialogOpen := False\<rparr>) of
                            (ui', fx) \<Rightarrow>
                              ((st', ui'),
                               [GetUser, UpsertBudget u m amount,
                                ToastSuccess ''Budget set successfully''] @ fx))))"

section \<open>ExpenseDialog (the expense form)\<close>

record form_data =
  f_amount :: string
  f_description :: string
  f_category_id :: string
  f_date :: string

text \<open>
  \<open>expenseSchema\<close>. zod checks every field and lists the issues in the order of the
  schema's keys; the handler shows the first. \<open>z.number()\<close> refuses \<open>NaN\<close> with its
  own message, \<open>positive\<close> asks for a value above 0, \<open>min(1)\<close> and \<open>max(200)\<close> count the
  characters of the string, \<open>uuid\<close> asks for 8-4-4-4-12 hexadecimal digits.
\<close>

definition is_hex :: "char \<Rightarrow> bool" where
  "is_hex c \<longleftrightarrow> c \<in> set ''0123456789abcdefABCDEF''"

definition is_uuid :: "string \<Rightarrow> bool" where
  "is_uuid s \<longleftrightarrow>
     length s = 36 \<and>
     s ! 8 = CHR ''-'' \<and> s ! 13 = CHR ''-'' \<and> s ! 18 = CHR ''-'' \<and> s ! 23 = CHR ''-'' \<and>
     list_all is_hex
       (take 8 s @ take 4 (drop 9 s) @ take 4 (drop 14 s) @ take 4 (drop 19 s) @ drop 24 s)"

definition amount_issues :: "js_number \<Rightarrow> string list" where
  "amount_issues a =
     (if isNaN a then [''Expected number, received nan'']
      else if gt_zero a then [] else [''Amount must be positive''])"

definition description_issues :: "string \<Rightarrow> string list" where
  "description_issues d =
     (if length d < 1 then [''Description is required''] else []) @
     (if length d > 200 then [''String must contain at most 200 character(s)''] else [])"

definition category_issues :: "string \<Rightarrow> string list" where
  "category_issues c = (if is_uuid c then [] else [''Please select a category''])"

definition date_issues :: "string \<Rightarrow> string list" where
  "date_issues d = (if length d < 1 then [''Date is required''] else [])"

definition expenseSchema_issues :: "js_number \<Rightarrow> form_data \<Rightarrow> string list" where
  "expenseSchema_issues a fd =
     amount_issues a @ description_issues (f_description fd) @
     category_issues (f_category_id fd) @ date_issues (f_date fd)"

text \<open>The store's part of the three mutations of an expense.\<close>

definition insert_expense ::
  "env \<Rightarrow> string \<Rightarrow> js_number \<Rightarrow> string \<Rightarrow> string \<Rightarrow> string \<Rightarrow> store \<Rightarrow> store option" where
  "insert_expense e u a d c dt st =
     (case a of
        Finite v \<Rightarrow>
          if env_mutation_fails e \<or> env_user e \<noteq> Some u then None
          else Some (st\<lparr>tbl_expenses := tbl_expenses st @
                 [\<lparr>expense_id = env_new_id e, user_id = u, amount = v, description = Some d,
                   date = dt, category_id = Some c, expense_categories = None\<rparr>]\<rparr>)
      | _ \<Rightarrow> None)"

definition update_expense ::
  "env \<Rightarrow> string \<Rightarrow> js_number \<Rightarrow> string \<Rightarrow> string \<Rightarrow> string \<Rightarrow> store \<Rightarrow> store option" where
  "update_expense e i a d c dt st =
     (case a of
        Finite v \<Rightarrow>
          if env_mutation_fails e then None
          else Some (st\<lparr>tbl_expenses :=
                 map (\<lambda>r. if expense_id r = i \<and> Some (user_id r) = env_user e
                          then r\<lparr>amount := v, description := Some d, category_id := Some c,
                                 date := dt\<rparr>
                          else r)
                     (tbl_expenses st)\<rparr>)
      | _ \<Rightarrow> None)"

definition delete_expense :: "env \<Rightarrow> string \<Rightarrow> store \<Rightarrow> store option" where
  "delete_expense e i st =
     (if env_mutation_fails e then None
      else Some (st\<lparr>tbl_expenses :=
             filter (\<lambda>r. \<not> (expense_id r = i \<and> Some (user_id r) = env_user e))
               (tbl_expenses st)\<rparr>))"

text \<open>
  handleSubmit. The argument \<open>editing\<close> is the prop \<open>expense\<close>: the expense being
  edited, or none for a new one. A failure of the store is shown with its message,
  or with "Failed to save expense" when the message is empty.
\<close>

definition handleSubmit ::
  "env \<Rightarrow> expense option \<Rightarrow> form_data \<Rightarrow> store \<Rightarrow> store \<times> effect list" where
  "handleSubmit e editing fd st =
     (let a = parseFloat (f_amount fd)
      in case expenseSchema_issues a fd of
           msg # others \<Rightarrow> (st, [ToastError msg])
         | [] \<Rightarrow>
             (case env_user e of
                None \<Rightarrow> (st, [GetUser, ToastError ''Not authenticated''])
              | Some u \<Rightarrow>
                  (case editing of
                     Some ex \<Rightarrow>
                       (let req = UpdateExpense (expense_id ex) a (f_description fd)
                                    (f_category_id fd) (f_date fd)
                        in case update_expense e (expense_id ex) a (f_description fd)
                                  (f_category_id fd) (f_date fd) st of
                             None \<Rightarrow>
                               (st, [GetUser, req,
                                     ToastError (or_default (Some (env_error_message e))
                                                   ''Failed to save expense'')])
                           | Some st' \<Rightarrow>
                               (st', [GetUser, req,
                                      ToastSuccess ''Expense updated successfully'',
                                      CloseDialog]))
                   | None \<Rightarrow>
                       (let req = InsertExpense u a (f_description fd) (f_category_id fd)
                                    (f_date fd)
                        in case insert_expense e u a (f_description fd) (f_category_id fd)
                                  (f_date fd) st of
                             None \<Rightarrow>
                               (st, [GetUser, req,
                                     ToastError (or_default (Some (env_error_message e))
                                                   ''Failed to save expense'')])
                           | Some st' \<Rightarrow>
                               (st', [GetUser, req,
                                      ToastSuccess ''Expense added successfully'',
                                      CloseDialog])))))"

section \<open>ExpenseList.tsx\<close>

text \<open>fetchExpenses: \<^verbatim>\<open>if (data) setExpenses(data)\<close>.\<close>

definition fetchExpenses :: "env \<Rightarrow> store \<Rightarrow> expense list \<Rightarrow> expense list \<times> effect list" where
  "fetchExpenses e st shown =
     (if env_query_fails e then shown else select_expenses_page (env_user e) st,
      [SelectExpensesPage])"

definition handleDelete :: "env \<Rightarrow> string \<Rightarrow> store \<Rightarrow> store \<times> effect list" where
  "handleDelete e i st =
     (case delete_expense e i st of
        None \<Rightarrow> (st, [DeleteExpense i, ToastError ''Failed to delete expense''])
      | Some st' \<Rightarrow> (st', [DeleteExpense i, ToastSuccess ''Expense deleted'']))"

section \<open>Dashboard.tsx: the fetch\<close>

record dashboard_stats =
  ds_totalExpenses :: rat
  ds_monthlyExpenses :: rat
  ds_categorySummary :: "summary_entry list"
  ds_dailyTrend :: "trend_entry list"

text \<open>fetchDashboardData: \<^verbatim>\<open>if (!expenses) return;\<close> leaves the state as it was.\<close>

definition fetchDashboardData ::
  "env \<Rightarrow> store \<Rightarrow> dashboard_stats \<Rightarrow> dashboard_stats \<times> effect list" where
  "fetchDashboardData e st stats =
     (if env_query_fails e then stats
      else
        (let expenses = select_all_expenses (env_user e) st
         in \<lparr>ds_totalExpenses = totalExpenses expenses,
             ds_monthlyExpenses = monthlyExpenses (env_tz e) (env_now e) expenses,
             ds_categorySummary = categorySummary expenses,
             ds_dailyTrend = dailyTrend (env_tz e) (env_now e) expenses\<rparr>),
      [SelectAllExpenses])"

section \<open>The page: components, events and handlers\<close>

text \<open>
  The state of the three displaying components over one store, the events they
  react to, and what each event runs: the \<open>useEffect(..., [])\<close> of a component on its
  mount, the callback of the subscription to the changes of \<open>expenses\<close> in
  ExpenseList, and the click and submit handlers.
\<close>

record app =
  app_store :: store
  app_list :: "expense list"
  app_stats :: dashboard_stats
  app_bt :: budget_tracker

datatype ui_event =
    MountDashboard
  | MountExpenseList
  | MountBudgetTracker
  | MountExpenseDialog
  | RealtimeChange
  | ClickDelete string
  | SubmitExpense "expense option" form_data
  | SubmitBudget string

definition initial_app :: "store \<Rightarrow> app" where
  "initial_app st =
     \<lparr>app_store = st,
      app_list = [],
      app_stats = \<lparr>ds_totalExpenses = 0, ds_monthlyExpenses = 0, ds_categorySummary = [],
                   ds_dailyTrend = []\<rparr>,
      app_bt = \<lparr>bt_budget = None, bt_monthlySpending = 0, bt_dialogOpen = False\<rparr>\<rparr>"

definition step :: "env \<Rightarrow> ui_event \<Rightarrow> app \<Rightarrow> app \<times> effect list" where
  "step e ev a =
     (case ev of
        MountDashboard \<Rightarrow>
          (case fetchDashboardData e (app_store a) (app_stats a) of
             (stats, fx) \<Rightarrow> (a\<lparr>app_stats := stats\<rparr>, fx))
      | MountExpenseList \<Rightarrow>
          (case fetchExpenses e (app_store a) (app_list a) of
             (shown, fx) \<Rightarrow> (a\<lparr>app_list := shown\<rparr>, fx))
      | MountBudgetTracker \<Rightarrow>
          (case fetchBudget e (app_store a) (app_bt a) of
             (ui, fx) \<Rightarrow>
               (case fetchMonthlySpendingBT e (app_store a) ui of
                  (ui', fx') \<Rightarrow> (a\<lparr>app_bt := ui'\<rparr>, fx @ fx')))
      | MountExpenseDialog \<Rightarrow> (a, [SelectCategories])
      | RealtimeChange \<Rightarrow>
          (case fetchExpenses e (app_store a) (app_list a) of
             (shown, fx) \<Rightarrow> (a\<lparr>app_list := shown\<rparr>, fx))
      | ClickDelete i \<Rightarrow>
          (case handleDelete e i (app_store a) of
             (st, fx) \<Rightarrow> (a\<lparr>app_store := st\<rparr>, fx))
      | SubmitExpense editing fd \<Rightarrow>
          (case handleSubmit e editing fd (app_store a) of
             (st, fx) \<Rightarrow> (a\<lparr>app_store := st\<rparr>, fx))
      | SubmitBudget s \<Rightarrow>
          (case handleSetBudget e s (app_store a, app_bt a) of
             ((st, ui), fx) \<Rightarrow> (a\<lparr>app_store := st, app_bt := ui\<rparr>, fx)))"

text \<open>A run: the events in order, each with what it meets outside; the effects in order.\<close>

fun run :: "(env \<times> ui_event) list \<Rightarrow> app \<Rightarrow> app \<times> effect list" where
  "run [] a = (a, [])"
| "run ((e, ev) # rest) a =
     (case step e ev a of
        (a', fx) \<Rightarrow> (case run rest a' of (a'', fx') \<Rightarrow> (a'', fx @ fx')))"

text \<open>
  In a trace of effects, every mutation of the store is followed, later in the
  trace, by a select.
\<close>

fun refetch_follows :: "effect list \<Rightarrow> bool" where
  "refetch_follows [] = True"
| "refetch_follows (f # fs) =
     ((if is_mutation f then list_ex is_select fs else True) \<and> refetch_follows fs)"

section \<open>Example data\<close>

text \<open>
  The expenses of the specification's worked example, and one expense without a
  category.
\<close>

definition mk_expense :: "string \<Rightarrow> rat \<Rightarrow> string \<Rightarrow> category option \<Rightarrow> expense" where
  "mk_expense i a d c =
     \<lparr>expense_id = i, user_id = ''u1'', amount = a, description = Some ''item'', date = d,
      category_id = None, expense_categories = c\<rparr>"

definition cat_food :: category where
  "cat_food = \<lparr>name = ''Food'', color = ''#F59E0B'', icon = None\<rparr>"

definition cat_travel :: category where
  "cat_travel = \<lparr>name = ''Travel'', color = ''#14B8A6'', icon = None\<rparr>"

definition example_expenses :: "expense list" where
  "example_expenses =
     [mk_expense ''e1'' 10 ''2024-03-01'' (Some cat_food),
      mk_expense ''e2'' 5 ''2024-03-01'' (Some cat_food),
      mk_expense ''e3'' 20 ''2024-03-02'' (Some cat_travel),
      mk_expense ''e4'' 7 ''2024-02-27'' None]"

text \<open>
  Amounts with cents: 0.10, 0.20 and 0.30 of one category, and 0.10, 0.10 and 1.10
  of two categories.
\<close>

definition cent_expenses :: "expense list" where
  "cent_expenses =
     [mk_expense ''d1'' (1 / 10) ''2024-03-01'' (Some cat_food),
      mk_expense ''d2'' (1 / 5) ''2024-03-01'' (Some cat_food),
      mk_expense ''d3'' (3 / 10) ''2024-03-02'' (Some cat_food)]"

definition split_expenses :: "expense list" where
  "split_expenses =
     [mk_expense ''s1'' (1 / 10) ''2024-03-01'' (Some cat_food),
      mk_expense ''s2'' (1 / 10) ''2024-03-01'' (Some cat_travel),
      mk_expense ''s3'' (11 / 10) ''2024-03-02'' (Some cat_food)]"

definition example_budget :: budget_row where
  "example_budget = \<lparr>budget_user_id = ''u1'', month = ''2024-03-01'', limit_amount = 100\<rparr>"

text \<open>
  A limit of 102.10 with one expense of 81.68, which is 0.80 of it; a limit of 0.30
  with expenses of 0.10 and 0.20, which add up to it.
\<close>

definition cent_budget :: budget_row where
  "cent_budget = \<lparr>budget_user_id = ''u1'', month = ''2024-03-01'', limit_amount = 1021 / 10\<rparr>"

definition cent_spend :: "expense list" where
  "cent_spend = [mk_expense ''b1'' (2042 / 25) ''2024-03-01'' (Some cat_food)]"

definition small_budget :: budget_row where
  "small_budget = \<lparr>budget_user_id = ''u1'', month = ''2024-03-01'', limit_amount = 3 / 10\<rparr>"

definition small_spend :: "expense list" where
  "small_spend =
     [mk_expense ''b2'' (1 / 10) ''2024-03-01'' (Some cat_food),
      mk_expense ''b3'' (1 / 5) ''2024-03-01'' (Some cat_food)]"

text \<open>
  The zone America/New_York in 2024: five hours west of Greenwich, four from
  2024-03-10T07:00:00Z (02:00 local time, which becomes 03:00) to
  2024-11-03T06:00:00Z (02:00 local time, which becomes 01:00). The instant
  2024-03-12T23:30:00Z is 19:30 of 12 March there, two days after the change.
\<close>

definition new_york :: zone where
  "new_york =
     \<lparr>offset_at = (\<lambda>t. if 1710054000000 \<le> t \<and> t < 1730613600000 then 240 else 300),
      offset_for_local = (\<lambda>t. if 1710039600000 \<le> t \<and> t < 1730599200000 then 240 else 300)\<rparr>"

definition after_change_now :: int where
  "after_change_now = 1710286200000"

text \<open>2024-03-02T20:00:00Z, which is 06:00 of 3 March in a zone ten hours east (\<open>tz = -600\<close>).\<close>

definition east_now :: int where
  "east_now = 1709409600000"

text \<open>2024-03-02T01:00:00Z, which is 20:00 of 1 March in a zone five hours west (\<open>tz = 300\<close>).\<close>

definition example_now :: int where
  "example_now = 1709341200000"

definition mid_march_now :: int where
  "mid_march_now = 1710522000000"

definition march_first_expense :: expense where
  "march_first_expense = mk_expense ''e1'' 10 ''2024-03-01'' None"

definition example_store :: store where
  "example_store =
     \<lparr>tbl_budgets =
        [\<lparr>budget_user_id = ''u2'', month = ''2024-03-01'', limit_amount = 900\<rparr>,
         \<lparr>budget_user_id = ''u1'', month = ''2024-02-01'', limit_amount = 50\<rparr>],
      tbl_expenses = example_expenses,
      tbl_categories = [(''c-food'', cat_food), (''c-travel'', cat_travel)]\<rparr>"

definition example_env :: env where
  "example_env =
     \<lparr>env_now = mid_march_now, env_tz = 300, env_user = Some ''u1'',
      env_mutation_fails = False, env_query_fails = False,
      env_error_message = '''', env_new_id = ''e9''\<rparr>"

definition example_bt :: budget_tracker where
  "example_bt = \<lparr>bt_budget = None, bt_monthlySpending = 0, bt_dialogOpen = True\<rparr>"

definition signed_out_env :: env where
  "signed_out_env = example_env\<lparr>env_user := None\<rparr>"

text \<open>
  The rows of the example as the table holds them (the category by its id), and a
  form with an empty description and every other field valid.
\<close>

definition mk_row :: "string \<Rightarrow> rat \<Rightarrow> string \<Rightarrow> string option \<Rightarrow> expense" where
  "mk_row i a d c =
     \<lparr>expense_id = i, user_id = ''u1'', amount = a, description = Some ''item'', date = d,
      category_id = c, expense_categories = None\<rparr>"

definition example_rows :: "expense list" where
  "example_rows =
     [mk_row ''e1'' 10 ''2024-03-01'' (Some ''c-food''),
      mk_row ''e2'' 5 ''2024-03-01'' (Some ''c-food''),
      mk_row ''e3'' 20 ''2024-03-02'' (Some ''c-travel''),
      mk_row ''e4'' 7 ''2024-02-27'' None]"

definition example_db :: store where
  "example_db = example_store\<lparr>tbl_expenses := example_rows\<rparr>"

definition no_description_form :: form_data where
  "no_description_form =
     \<lparr>f_amount = ''12.50'', f_description = '''',
      f_category_id = ''123e4567-e89b-12d3-a456-426614174000'', f_date = ''2024-03-02''\<rparr>"

definition described_form :: form_data where
  "described_form = no_description_form\<lparr>f_description := ''Lunch''\<rparr>"

text \<open>A store with 51 expenses of one user.\<close>

definition many_db :: store where
  "many_db = example_db\<lparr>tbl_expenses := replicate 51 (mk_row ''e1'' 1 ''2024-03-01'' None)\<rparr>"

section \<open>Rounding to a double\<close>

lemma pow2_powi: "pow2 e = 2 powi e"
  by (simp add: pow2_def power_int_def power_inverse field_simps)

lemma pow2_pos: "0 < pow2 e"
  by (simp add: pow2_powi)

lemma pow2_add: "pow2 (a + b) = pow2 a * pow2 b"
  by (simp add: pow2_powi power_int_add)

lemma pow2_mono: "a \<le> b \<Longrightarrow> pow2 a \<le> pow2 b"
  by (simp add: pow2_powi power_int_increasing)

lemma pow2_nat: "pow2 (int n) = 2 ^ n"
  by (simp add: pow2_def)

lemma pow2_neg: "pow2 (- int n) = 1 / 2 ^ n"
  by (simp add: pow2_def)

lemma binade_bounds:
  assumes "0 < x"
  shows "pow2 (binade x) \<le> x" and "x < pow2 (binade x + 1)"
proof -
  have "pow2 (binade x) \<le> x \<and> x < pow2 (binade x + 1)"
  proof (cases "1 \<le> x")
    case True
    define n where "n = \<lfloor>x\<rfloor>"
    have n: "0 < n" using True by (simp add: n_def)
    from bitlen_bounds [OF n] have lo: "2 ^ nat (bitlen n - 1) \<le> n" and hi: "n < 2 ^ nat (bitlen n)"
      by simp_all
    have pos: "0 < bitlen n" using n bitlen_eq_zero_iff [of n] bitlen_nonneg [of n] by linarith
    have b: "binade x = bitlen n - 1" using True by (simp add: binade_def n_def)
    have "pow2 (binade x) = of_int (2 ^ nat (bitlen n - 1))"
      using pos by (simp add: b pow2_def)
    also have "\<dots> \<le> of_int n" using lo by (simp only: of_int_le_iff)
    also have "\<dots> \<le> x" by (simp add: n_def)
    finally have 1: "pow2 (binade x) \<le> x" .
    have "x < of_int (n + 1)" by (simp add: n_def; linarith)
    also have "\<dots> \<le> of_int (2 ^ nat (bitlen n))" using hi by (simp only: of_int_le_iff)
    also have "\<dots> = pow2 (binade x + 1)" using pos by (simp add: b pow2_def)
    finally show ?thesis using 1 by simp
  next
    case False
    define y where "y = 1 / x"
    define n where "n = \<lceil>y\<rceil> - 1"
    have y1: "1 < y" using False assms by (simp add: y_def)
    have n: "0 < n" using y1 by (simp add: n_def; linarith)
    from bitlen_bounds [OF n] have lo: "2 ^ nat (bitlen n - 1) \<le> n" and hi: "n < 2 ^ nat (bitlen n)"
      by simp_all
    have pos: "0 < bitlen n" using n bitlen_eq_zero_iff [of n] bitlen_nonneg [of n] by linarith
    have b: "binade x = - bitlen n" using False by (simp add: binade_def n_def y_def)
    have ny: "of_int n < y" by (simp add: n_def; linarith)
    have yn: "y \<le> of_int (n + 1)" by (simp add: n_def) 
    have "y \<le> of_int (2 ^ nat (bitlen n))"
      using yn hi by (meson of_int_le_iff order_trans zless_imp_add1_zle)
    then have "y \<le> 2 ^ nat (bitlen n)" by simp
    then have "1 / 2 ^ nat (bitlen n) \<le> x"
      using assms by (simp add: y_def field_simps)
    then have 1: "pow2 (binade x) \<le> x" using pos by (simp add: b pow2_def)
    have "(of_int (2 ^ nat (bitlen n - 1)) :: rat) \<le> of_int n" using lo by (simp only: of_int_le_iff)
    then have "(2 :: rat) ^ nat (bitlen n - 1) \<le> of_int n" by simp
    then have "2 ^ nat (bitlen n - 1) < y" using ny by linarith
    then have 2: "x < 1 / 2 ^ nat (bitlen n - 1)"
      using assms by (simp add: y_def field_simps)
    have "pow2 (binade x + 1) = 1 / 2 ^ nat (bitlen n - 1)"
      using pos by (simp add: b pow2_def)
    then show ?thesis using 1 2 by simp
  qed
  then show "pow2 (binade x) \<le> x" and "x < pow2 (binade x + 1)" by simp_all
qed

lemma binade_unique:
  assumes "0 < x" and "pow2 e \<le> x" and "x < pow2 (e + 1)"
  shows "binade x = e"
proof (rule ccontr)
  assume ne: "binade x \<noteq> e"
  show False
  proof (cases "binade x < e")
    case True
    then have "pow2 (binade x + 1) \<le> pow2 e" by (intro pow2_mono) simp
    then show False using binade_bounds(2) [OF assms(1)] assms(2) by simp
  next
    case False
    then have "pow2 (e + 1) \<le> pow2 (binade x)" using ne by (intro pow2_mono) simp
    then show False using binade_bounds(1) [OF assms(1)] assms(3) by simp
  qed
qed

lemma binade_mono:
  assumes "0 < x" and "x \<le> y"
  shows "binade x \<le> binade y"
proof (rule ccontr)
  assume "\<not> binade x \<le> binade y"
  then have "pow2 (binade y + 1) \<le> pow2 (binade x)" by (intro pow2_mono) simp
  then show False
    using binade_bounds(1) [OF assms(1)] binade_bounds(2) [of y] assms by simp
qed

lemma round_even_of_int: "round_even (of_int k) = k"
  by (simp add: round_even_def)

lemma round_even_cases:
  "round_even q = \<lfloor>q\<rfloor> \<or> round_even q = \<lfloor>q\<rfloor> + 1"
  by (simp add: round_even_def Let_def)

lemma round_even_mono:
  assumes "q \<le> q'"
  shows "round_even q \<le> round_even q'"
proof (cases "\<lfloor>q\<rfloor> < \<lfloor>q'\<rfloor>")
  case True
  then show ?thesis
    using round_even_cases [of q] round_even_cases [of q'] by linarith
next
  case False
  then have eq: "\<lfloor>q\<rfloor> = \<lfloor>q'\<rfloor>" using assms floor_mono [of q q'] by simp
  then show ?thesis using assms by (simp add: round_even_def Let_def)
qed

lemma round_even_ge: "of_int a \<le> q \<Longrightarrow> a \<le> round_even q"
  using round_even_mono [of "of_int a" q] by (simp add: round_even_of_int)

lemma round_even_le: "q \<le> of_int b \<Longrightarrow> round_even q \<le> b"
  using round_even_mono [of q "of_int b"] by (simp add: round_even_of_int)

lemma round_even_error: "\<bar>of_int (round_even q) - q\<bar> \<le> 1 / 2"
proof -
  have "of_int \<lfloor>q\<rfloor> \<le> q" and "q < of_int \<lfloor>q\<rfloor> + 1" by linarith+
  then show ?thesis
    unfolding round_even_def Let_def by (simp add: abs_if; linarith)
qed

lemma round_even_minus: "round_even (- q) = - round_even q"
proof (cases "q \<in> \<int>")
  case True
  then obtain k where "q = of_int k" by (auto elim: Ints_cases)
  then show ?thesis using round_even_of_int [of "- k"] by (simp add: round_even_of_int)
next
  case False
  then have ne: "of_int \<lfloor>q\<rfloor> \<noteq> q" by (metis Ints_of_int)
  then have f: "\<lfloor>- q\<rfloor> = - \<lfloor>q\<rfloor> - 1"
    by (simp add: floor_minus ceiling_altdef)
  have e: "even (- \<lfloor>q\<rfloor> - 1) \<longleftrightarrow> odd \<lfloor>q\<rfloor>" by simp
  show ?thesis
    unfolding round_even_def Let_def f e by (simp add: field_simps) 
qed

lemma rd_zero: "rd 0 = 0"
  by (simp add: rd_def)

lemma rd_minus: "rd (- x) = - rd x"
  by (simp add: rd_def Let_def round_even_minus)

lemma rd_eq:
  "x \<noteq> 0 \<Longrightarrow> e = max (binade \<bar>x\<bar>) (- 1022) \<Longrightarrow> u = pow2 (e - 52) \<Longrightarrow>
   rd x = of_int (round_even (x / u)) * u"
  by (simp add: rd_def Let_def)

lemma rd_nonneg:
  assumes "0 \<le> x"
  shows "0 \<le> rd x"
proof (cases "x = 0")
  case True
  then show ?thesis by (simp add: rd_zero)
next
  case False
  define u where "u = pow2 (max (binade \<bar>x\<bar>) (- 1022) - 52)"
  have u: "0 < u" by (simp add: u_def pow2_pos)
  have "of_int 0 \<le> x / u" using assms u by simp
  then have "0 \<le> round_even (x / u)" by (rule round_even_ge)
  then show ?thesis using u by (simp add: rd_eq [OF False refl u_def])
qed

lemma pow2_52: "pow2 (e + 1) / pow2 (e - 52) = 2 ^ 53" and pow2_53: "pow2 e / pow2 (e - 52) = 2 ^ 52"
proof -
  have a: "e + 1 = (e - 52) + 53" by linarith
  have "pow2 (e + 1) = pow2 (e - 52) * pow2 53" by (subst a) (rule pow2_add)
  then show "pow2 (e + 1) / pow2 (e - 52) = 2 ^ 53"
    using pow2_pos [of "e - 52"] pow2_nat [of 53] by simp
  have b: "e = (e - 52) + 52" by linarith
  have "pow2 e = pow2 (e - 52) * pow2 52" by (subst b) (rule pow2_add)
  then show "pow2 e / pow2 (e - 52) = 2 ^ 52"
    using pow2_pos [of "e - 52"] pow2_nat [of 52] by simp
qed

lemma rd_le_pow2:
  assumes "0 < x" and "x \<le> pow2 (e + 1)" and "binade x \<le> e" "- 1022 \<le> e"
  shows "rd x \<le> pow2 (e + 1)"
proof -
  define e' where "e' = max (binade \<bar>x\<bar>) (- 1022)"
  define u where "u = pow2 (e' - 52)"
  have u: "0 < u" by (simp add: u_def pow2_pos)
  have ax: "\<bar>x\<bar> = x" and x0: "x \<noteq> 0" using assms(1) by simp_all
  have e': "e' \<le> e" using assms by (simp add: e'_def ax)
  have "x < pow2 (e' + 1)"
    using binade_bounds(2) [OF assms(1)] pow2_mono [of "binade x + 1" "e' + 1"]
    by (simp add: e'_def ax)
  then have "x / u \<le> pow2 (e' + 1) / u" using u by (simp add: divide_right_mono)
  then have "x / u \<le> of_int (2 ^ 53)" by (simp add: u_def pow2_52)
  then have "round_even (x / u) \<le> 2 ^ 53" by (rule round_even_le)
  then have "(of_int (round_even (x / u)) :: rat) \<le> of_int (2 ^ 53)" by (simp only: of_int_le_iff)
  then have "of_int (round_even (x / u)) * u \<le> 2 ^ 53 * u" using u by simp
  also have "\<dots> = pow2 (e' + 1)"
    using pow2_52 [of e'] pow2_pos [of "e' - 52"] by (simp add: u_def field_simps)
  also have "\<dots> \<le> pow2 (e + 1)" using e' by (intro pow2_mono) simp
  finally show ?thesis by (simp add: rd_eq [OF x0 e'_def u_def])
qed

lemma rd_ge_pow2:
  assumes "0 < x" and "- 1022 \<le> binade x"
  shows "pow2 (binade x) \<le> rd x"
proof -
  define e where "e = binade x"
  define u where "u = pow2 (e - 52)"
  have u: "0 < u" by (simp add: u_def pow2_pos)
  have ax: "\<bar>x\<bar> = x" and x0: "x \<noteq> 0" using assms(1) by simp_all
  have m: "e = max (binade \<bar>x\<bar>) (- 1022)" using assms by (simp add: e_def ax)
  have "pow2 e / u \<le> x / u"
    using binade_bounds(1) [OF assms(1)] u by (simp add: divide_right_mono e_def)
  then have "of_int (2 ^ 52) \<le> x / u" by (simp add: u_def pow2_53)
  then have "2 ^ 52 \<le> round_even (x / u)" by (rule round_even_ge)
  then have "(of_int (2 ^ 52) :: rat) \<le> of_int (round_even (x / u))" by (simp only: of_int_le_iff)
  then have "2 ^ 52 * u \<le> of_int (round_even (x / u)) * u" using u by simp
  moreover have "2 ^ 52 * u = pow2 e"
    using pow2_53 [of e] pow2_pos [of "e - 52"] by (simp add: u_def field_simps)
  ultimately show ?thesis by (simp add: rd_eq [OF x0 m u_def] e_def [symmetric])
qed

lemma rd_mono_pos:
  assumes "0 < x" and "x \<le> y"
  shows "rd x \<le> rd y"
proof -
  define e1 where "e1 = max (binade \<bar>x\<bar>) (- 1022)"
  define e2 where "e2 = max (binade \<bar>y\<bar>) (- 1022)"
  have y: "0 < y" using assms by simp
  have ax: "\<bar>x\<bar> = x" "\<bar>y\<bar> = y" and n0: "x \<noteq> 0" "y \<noteq> 0" using assms by simp_all
  have le: "e1 \<le> e2" using binade_mono [OF assms] by (simp add: e1_def e2_def ax)
  show ?thesis
  proof (cases "e1 = e2")
    case True
    define u where "u = pow2 (e1 - 52)"
    have u: "0 < u" by (simp add: u_def pow2_pos)
    have "x / u \<le> y / u" using assms u by (simp add: divide_right_mono)
    then have "round_even (x / u) \<le> round_even (y / u)" by (rule round_even_mono)
    then have "(of_int (round_even (x / u)) :: rat) \<le> of_int (round_even (y / u))"
      by (simp only: of_int_le_iff)
    then have "of_int (round_even (x / u)) * u \<le> of_int (round_even (y / u)) * u"
      using u by simp
    moreover have "u = pow2 (e2 - 52)" using True by (simp add: u_def)
    ultimately show ?thesis
      by (simp add: rd_eq [OF n0(1) e1_def u_def] rd_eq [OF n0(2) e2_def])
  next
    case False
    then have lt: "e1 < e2" using le by simp
    then have biny: "binade y = e2" and norm: "- 1022 \<le> binade y"
      by (simp_all add: e1_def e2_def ax max_def split: if_splits)
    have "x < pow2 (binade x + 1)" by (rule binade_bounds(2) [OF assms(1)])
    also have "\<dots> \<le> pow2 (e1 + 1)" by (intro pow2_mono) (simp add: e1_def ax)
    finally have "rd x \<le> pow2 (e1 + 1)"
      by (intro rd_le_pow2 [OF assms(1)]) (simp_all add: e1_def ax)
    also have "\<dots> \<le> pow2 e2" using lt by (intro pow2_mono) simp
    also have "\<dots> \<le> rd y" using rd_ge_pow2 [OF y norm] by (simp add: biny)
    finally show ?thesis .
  qed
qed

lemma rd_mono:
  assumes "x \<le> y"
  shows "rd x \<le> rd y"
proof -
  consider "0 < x" | "x \<le> 0" "0 \<le> y" | "y < 0" by linarith
  then show ?thesis
  proof cases
    case 1
    then show ?thesis using assms by (rule rd_mono_pos)
  next
    case 2
    have "rd x = - rd (- x)" by (simp add: rd_minus)
    moreover have "0 \<le> rd (- x)" using 2 by (intro rd_nonneg) simp
    moreover have "0 \<le> rd y" using 2 by (intro rd_nonneg)
    ultimately show ?thesis by simp
  next
    case 3
    have "rd (- y) \<le> rd (- x)" using 3 assms by (intro rd_mono_pos) simp_all
    then show ?thesis by (simp add: rd_minus)
  qed
qed

lemma rd_error:
  assumes "x \<noteq> 0"
  shows "\<bar>rd x - x\<bar> \<le> pow2 (max (binade \<bar>x\<bar>) (- 1022) - 52) / 2"
proof -
  define u where "u = pow2 (max (binade \<bar>x\<bar>) (- 1022) - 52)"
  have u: "0 < u" by (simp add: u_def pow2_pos)
  have "rd x - x = (of_int (round_even (x / u)) - x / u) * u"
    using u by (simp add: rd_eq [OF assms refl u_def] field_simps)
  then have "\<bar>rd x - x\<bar> = \<bar>of_int (round_even (x / u)) - x / u\<bar> * u"
    using u by (simp add: abs_mult)
  also have "\<dots> \<le> (1 / 2) * u"
    using round_even_error [of "x / u"] u by (intro mult_right_mono) simp_all
  finally show ?thesis by (simp add: u_def)
qed

lemma rd_relative_error:
  assumes "pow2 (- 1022) \<le> \<bar>x\<bar>"
  shows "\<bar>rd x - x\<bar> \<le> \<bar>x\<bar> / 2 ^ 53"
proof -
  have pos: "0 < \<bar>x\<bar>" using assms pow2_pos [of "- 1022"] by linarith
  then have x: "x \<noteq> 0" by simp
  have "- 1022 \<le> binade \<bar>x\<bar>"
  proof (rule ccontr)
    assume "\<not> - 1022 \<le> binade \<bar>x\<bar>"
    then have "pow2 (binade \<bar>x\<bar> + 1) \<le> pow2 (- 1022)" by (intro pow2_mono) simp
    then show False using binade_bounds(2) [OF pos] assms by simp
  qed
  then have m: "max (binade \<bar>x\<bar>) (- 1022) = binade \<bar>x\<bar>" by simp
  have "pow2 (binade \<bar>x\<bar> - 52) * 2 ^ 52 = pow2 (binade \<bar>x\<bar>)"
    using pow2_53 [of "binade \<bar>x\<bar>"] pow2_pos [of "binade \<bar>x\<bar> - 52"] by (simp add: field_simps)
  then have "pow2 (binade \<bar>x\<bar> - 52) * 2 ^ 52 \<le> \<bar>x\<bar>"
    using binade_bounds(1) [OF pos] by simp
  then have "pow2 (binade \<bar>x\<bar> - 52) / 2 \<le> \<bar>x\<bar> / 2 ^ 53" by (simp add: field_simps)
  then show ?thesis using rd_error [OF x] by (simp add: m)
qed

lemma rd_representable_pos:
  assumes "0 < m" and "m < 2 ^ 53" and "- 1074 \<le> k"
  shows "rd (of_int m * pow2 k) = of_int m * pow2 k"
proof -
  define x where "x = of_int m * pow2 k"
  define b where "b = bitlen m"
  have x: "0 < x" using assms(1) pow2_pos [of k] by (simp add: x_def)
  from bitlen_bounds [OF assms(1)]
  have lo: "2 ^ nat (b - 1) \<le> m" and hi: "m < 2 ^ nat b" by (simp_all add: b_def)
  have b1: "1 \<le> b"
    using assms(1) bitlen_eq_zero_iff [of m] bitlen_nonneg [of m] by (simp add: b_def)
  have b53: "b \<le> 53"
  proof (rule ccontr)
    assume "\<not> b \<le> 53"
    then have "53 \<le> nat (b - 1)" by simp
    then have "(2 :: int) ^ 53 \<le> 2 ^ nat (b - 1)" by (intro power_increasing) simp_all
    then show False using lo assms(2) by simp
  qed
  have lo': "pow2 (b - 1) \<le> of_int m"
  proof -
    have "(of_int (2 ^ nat (b - 1)) :: rat) \<le> of_int m" using lo by (simp only: of_int_le_iff)
    then show ?thesis using b1 by (simp add: pow2_def)
  qed
  have hi': "of_int m < pow2 b"
  proof -
    have "(of_int m :: rat) < of_int (2 ^ nat b)" using hi by (simp only: of_int_less_iff)
    then show ?thesis using b1 by (simp add: pow2_def)
  qed
  have "pow2 (b - 1 + k) \<le> x"
    using lo' pow2_pos [of k] by (simp add: x_def pow2_add)
  moreover have "x < pow2 (b - 1 + k + 1)"
    using hi' pow2_pos [of k] pow2_add [of b k] by (simp add: x_def)
  ultimately have bin: "binade x = b - 1 + k" using x by (intro binade_unique)
  define ue where "ue = max (b - 1 + k) (- 1022) - 52"
  have d: "0 \<le> k - ue" using b53 assms(3) by (simp add: ue_def)
  have "x / pow2 ue = of_int m * pow2 (k - ue)"
    using pow2_add [of "k - ue" ue] pow2_pos [of ue] by (simp add: x_def)
  also have "\<dots> = of_int (m * 2 ^ nat (k - ue))" using d by (simp add: pow2_def)
  finally have "round_even (x / pow2 ue) = m * 2 ^ nat (k - ue)"
    by (simp only: round_even_of_int)
  then have "of_int (round_even (x / pow2 ue)) * pow2 ue = of_int m * (pow2 (k - ue) * pow2 ue)"
    using d by (simp add: pow2_def)
  also have "\<dots> = x" by (simp add: pow2_add [symmetric] x_def)
  finally have "rd x = x"
    using x by (simp add: rd_eq [OF _ refl refl] bin ue_def)
  then show ?thesis by (simp add: x_def)
qed

lemma rd_representable:
  assumes "\<bar>m\<bar> < 2 ^ 53" and "- 1074 \<le> k"
  shows "rd (of_int m * pow2 k) = of_int m * pow2 k"
proof -
  consider "m = 0" | "0 < m" | "m < 0" by linarith
  then show ?thesis
  proof cases
    case 1
    then show ?thesis by (simp add: rd_zero)
  next
    case 2
    then show ?thesis using assms by (intro rd_representable_pos) simp_all
  next
    case 3
    then have "rd (of_int (- m) * pow2 k) = of_int (- m) * pow2 k"
      using assms by (intro rd_representable_pos) simp_all
    then show ?thesis using rd_minus [of "of_int m * pow2 k"] by simp
  qed
qed

lemma rd_int: "\<bar>n\<bar> < 2 ^ 53 \<Longrightarrow> rd (of_int n) = of_int n"
  using rd_representable [of n 0] by (simp add: pow2_def)

lemma rd_nat: "n < 2 ^ 53 \<Longrightarrow> rd (of_nat n) = of_nat n"
  using rd_int [of "int n"] by simp

lemma rd_numeral [simp]: "numeral k < (2 :: int) ^ 53 \<Longrightarrow> rd (numeral k) = numeral k"
  using rd_int [of "numeral k"] by simp

lemma rd_one [simp]: "rd 1 = 1"
  using rd_int [of 1] by simp

lemma fadd_nat:
  "a + b < 2 ^ 53 \<Longrightarrow> fadd (of_nat a) (Number (of_nat b)) = of_nat (a + b)"
  using rd_nat [of b] rd_nat [of "a + b"] by (simp add: fadd_def Number_def)

text \<open>The result of \<open>rd\<close> is a double: rounding it again changes nothing.\<close>

lemma rd_idem_pos:
  assumes "0 < x"
  shows "rd (rd x) = rd x"
proof -
  define e where "e = max (binade \<bar>x\<bar>) (- 1022)"
  define u where "u = pow2 (e - 52)"
  define j where "j = round_even (x / u)"
  have u: "0 < u" by (simp add: u_def pow2_pos)
  have ax: "\<bar>x\<bar> = x" and x0: "x \<noteq> 0" using assms by simp_all
  have r: "rd x = of_int j * u" unfolding j_def by (rule rd_eq [OF x0 e_def u_def])
  have k: "- 1074 \<le> e - 52" by (simp add: e_def)
  have "x < pow2 (e + 1)"
    using binade_bounds(2) [OF assms] pow2_mono [of "binade x + 1" "e + 1"]
    by (simp add: e_def ax)
  then have "x / u \<le> pow2 (e + 1) / u" using u by (simp add: divide_right_mono)
  then have "x / u \<le> of_int (2 ^ 53)" by (simp add: u_def pow2_52)
  then have hi: "j \<le> 2 ^ 53" unfolding j_def by (rule round_even_le)
  have "of_int 0 \<le> x / u" using assms u by simp
  then have lo: "0 \<le> j" unfolding j_def by (rule round_even_ge)
  show ?thesis
  proof (cases "j = 2 ^ 53")
    case True
    have "of_int j * u = of_int (2 ^ 52) * pow2 ((e - 52) + 1)"
      unfolding pow2_add by (simp add: True u_def pow2_def)
    moreover have "rd (of_int (2 ^ 52) * pow2 ((e - 52) + 1)) = of_int (2 ^ 52) * pow2 ((e - 52) + 1)"
      using k by (intro rd_representable) simp_all
    ultimately show ?thesis by (simp only: r)
  next
    case False
    then have "\<bar>j\<bar> < 2 ^ 53" using hi lo by simp
    then have "rd (of_int j * pow2 (e - 52)) = of_int j * pow2 (e - 52)"
      using k by (rule rd_representable)
    then show ?thesis by (simp only: r u_def)
  qed
qed

lemma rd_idem: "rd (rd x) = rd x"
proof -
  consider "x = 0" | "0 < x" | "x < 0" by linarith
  then show ?thesis
  proof cases
    case 1
    then show ?thesis by (simp add: rd_zero)
  next
    case 2
    then show ?thesis by (rule rd_idem_pos)
  next
    case 3
    then have "rd (rd (- x)) = rd (- x)" by (intro rd_idem_pos) simp
    then show ?thesis by (simp add: rd_minus)
  qed
qed

lemma Number_idem: "Number (Number x) = Number x"
  by (simp add: Number_def rd_idem)

section \<open>Properties of the aggregator\<close>

subsection \<open>Sums of whole amounts are exact\<close>

lemma fadd_whole:
  assumes "a \<in> \<nat>" and "b \<in> \<nat>" and "a + b < 2 ^ 53"
  shows "fadd a (Number b) = a + b"
proof -
  from assms(1,2) obtain m n :: nat where mn: "a = of_nat m" "b = of_nat n"
    by (auto elim!: Nats_cases)
  have "(of_nat (m + n) :: rat) < of_nat (2 ^ 53)" using assms(3) by (simp add: mn)
  then have "m + n < 2 ^ 53" by (simp only: of_nat_less_iff)
  then show ?thesis using fadd_nat [of m n] by (simp add: mn)
qed

lemma sum_list_whole: "\<forall>e \<in> set es. amount e \<in> \<nat> \<Longrightarrow> sum_list (map amount es) \<in> \<nat>"
  by (induction es) (simp_all add: Nats_add)

lemma whole_nonneg: "x \<in> \<nat> \<Longrightarrow> 0 \<le> (x :: rat)"
  by (auto elim!: Nats_cases)

lemma sum_amounts_whole_acc:
  assumes "\<forall>e \<in> set es. amount e \<in> \<nat>" and "a \<in> \<nat>"
    and "a + sum_list (map amount es) < 2 ^ 53"
  shows "foldl (\<lambda>acc e. fadd acc (Number (amount e))) a es = a + sum_list (map amount es)"
  using assms
proof (induction es arbitrary: a)
  case Nil
  show ?case by simp
next
  case (Cons e es)
  have rest: "0 \<le> sum_list (map amount es)"
    using Cons.prems(1) by (intro whole_nonneg sum_list_whole) simp
  have step: "fadd a (Number (amount e)) = a + amount e"
    using Cons.prems rest by (intro fadd_whole) simp_all
  have "foldl (\<lambda>acc e. fadd acc (Number (amount e))) (a + amount e) es =
      a + amount e + sum_list (map amount es)"
    using Cons.prems by (intro Cons.IH) (simp_all add: Nats_add add.assoc)
  then show ?case by (simp add: step add.assoc)
qed

lemma sum_amounts_whole:
  assumes "\<forall>e \<in> set es. amount e \<in> \<nat>" and "sum_list (map amount es) < 2 ^ 53"
  shows "sum_amounts es = sum_list (map amount es)"
  using sum_amounts_whole_acc [OF assms(1), of 0] assms(2) by (simp add: sum_amounts_def)

lemma sum_list_filter_le:
  "\<forall>e \<in> set es. amount e \<in> \<nat> \<Longrightarrow>
     sum_list (map amount (filter P es)) \<le> sum_list (map amount es)"
proof (induction es)
  case Nil
  show ?case by simp
next
  case (Cons e es)
  then show ?case using whole_nonneg [of "amount e"] by auto
qed

lemma sum_amounts_whole_filter:
  assumes "\<forall>e \<in> set es. amount e \<in> \<nat>" and "sum_list (map amount es) < 2 ^ 53"
  shows "sum_amounts (filter P es) = sum_list (map amount (filter P es))"
  using assms sum_list_filter_le [OF assms(1), of P] by (intro sum_amounts_whole) auto

subsection \<open>The rounding error of a sum\<close>

lemma rd_bounds:
  assumes "0 \<le> y" and "y = 0 \<or> 1 / 128 \<le> y"
  shows "y * (1 - 1 / 2 ^ 53) \<le> rd y" and "rd y \<le> y * (1 + 1 / 2 ^ 53)"
    and "rd y = 0 \<or> 1 / 128 \<le> rd y"
proof -
  have "y * (1 - 1 / 2 ^ 53) \<le> rd y \<and> rd y \<le> y * (1 + 1 / 2 ^ 53) \<and>
      (rd y = 0 \<or> 1 / 128 \<le> rd y)"
  proof (cases "y = 0")
    case True
    then show ?thesis by (simp add: rd_zero)
  next
    case False
    then have y: "1 / 128 \<le> y" using assms(2) by simp
    have "pow2 (- 1022) \<le> 1 / 128" by (simp add: pow2_def)
    then have "pow2 (- 1022) \<le> \<bar>y\<bar>" using y by linarith
    from rd_relative_error [OF this] have "\<bar>rd y - y\<bar> \<le> y / 2 ^ 53" using assms(1) by simp
    then have d: "y - y / 2 ^ 53 \<le> rd y" "rd y \<le> y + y / 2 ^ 53" by linarith+
    have "y * (1 - 1 / 2 ^ 53) = y - y / 2 ^ 53" "y * (1 + 1 / 2 ^ 53) = y + y / 2 ^ 53"
      by (simp_all only: right_diff_distrib distrib_left mult_1_right times_divide_eq_right)
    then have b: "y * (1 - 1 / 2 ^ 53) \<le> rd y" "rd y \<le> y * (1 + 1 / 2 ^ 53)"
      using d by (simp_all only:)
    have "rd (of_int 1 * pow2 (- 7)) = of_int 1 * pow2 (- 7)"
      by (rule rd_representable) simp_all
    then have "rd (1 / 128) = 1 / 128" by (simp add: pow2_def)
    then have "1 / 128 \<le> rd y" using rd_mono [OF y] by simp
    then show ?thesis using b by simp
  qed
  then show "y * (1 - 1 / 2 ^ 53) \<le> rd y" and "rd y \<le> y * (1 + 1 / 2 ^ 53)"
    and "rd y = 0 \<or> 1 / 128 \<le> rd y" by simp_all
qed

lemma cents_amount:
  assumes "a * 100 \<in> \<nat>"
  shows "0 \<le> (a :: rat)" and "a = 0 \<or> 1 / 128 \<le> a"
proof -
  from assms obtain n :: nat where n: "a * 100 = of_nat n" by (auto elim!: Nats_cases)
  then have a: "a = of_nat n / 100" by simp
  show "0 \<le> a" by (simp add: a)
  show "a = 0 \<or> 1 / 128 \<le> a"
  proof (cases "n = 0")
    case True
    then show ?thesis by (simp add: a)
  next
    case False
    then have "(1 :: rat) \<le> of_nat n" by simp
    then show ?thesis by (simp add: a)
  qed
qed

lemma sum_amounts_error_acc:
  assumes "\<forall>e \<in> set es. amount e * 100 \<in> \<nat>"
    and "acc = 0 \<or> 1 / 128 \<le> acc" and "0 \<le> s"
    and "s * (1 - 1 / 2 ^ 53) ^ k \<le> acc" and "acc \<le> s * (1 + 1 / 2 ^ 53) ^ k"
  shows "(s + sum_list (map amount es)) * (1 - 1 / 2 ^ 53) ^ (k + 2 * length es)
      \<le> foldl (\<lambda>acc e. fadd acc (Number (amount e))) acc es \<and>
    foldl (\<lambda>acc e. fadd acc (Number (amount e))) acc es
      \<le> (s + sum_list (map amount es)) * (1 + 1 / 2 ^ 53) ^ (k + 2 * length es)"
  using assms
proof (induction es arbitrary: acc s k)
  case Nil
  then show ?case by simp
next
  case (Cons e es)
  define lo :: rat where "lo = 1 - 1 / 2 ^ 53"
  define hi :: rat where "hi = 1 + 1 / 2 ^ 53"
  have lo: "0 \<le> lo" "lo \<le> 1" and hi: "1 \<le> hi" by (simp_all add: lo_def hi_def)
  define a where "a = amount e"
  define b where "b = Number a"
  have c: "a * 100 \<in> \<nat>" using Cons.prems(1) by (simp add: a_def)
  note a = cents_amount [OF c]
  note bb = rd_bounds [OF a, folded Number_def b_def lo_def hi_def]
  have acc0: "0 \<le> acc" using Cons.prems(2) by auto
  have b0: "0 \<le> b" using bb(3) by auto
  have sum: "0 \<le> acc + b" "acc + b = 0 \<or> 1 / 128 \<le> acc + b"
    using Cons.prems(2) bb(3) acc0 b0 by auto
  note r = rd_bounds [OF sum, folded fadd_def lo_def hi_def]
  have lok: "lo ^ (k + 2) \<le> lo ^ k * lo" "lo ^ (k + 2) \<le> lo * lo"
  proof -
    have "lo ^ (k + 2) = lo ^ k * lo * lo" by (simp add: power_add power2_eq_square)
    also have "\<dots> \<le> lo ^ k * lo * 1" using lo by (intro mult_left_mono) simp_all
    finally show "lo ^ (k + 2) \<le> lo ^ k * lo" by simp
    have "lo ^ (k + 2) = lo ^ k * (lo * lo)" by (simp add: power_add power2_eq_square)
    also have "\<dots> \<le> 1 * (lo * lo)" using lo by (intro mult_right_mono power_le_one) simp_all
    finally show "lo ^ (k + 2) \<le> lo * lo" by simp
  qed
  have hik: "hi ^ k * hi \<le> hi ^ (k + 2)" "hi * hi \<le> hi ^ (k + 2)"
  proof -
    have h0: "0 \<le> hi" using hi by simp
    have "hi ^ k * hi * 1 \<le> hi ^ k * hi * hi" using hi h0 by (intro mult_left_mono) simp_all
    also have "\<dots> = hi ^ (k + 2)" by (simp add: power_add power2_eq_square)
    finally show "hi ^ k * hi \<le> hi ^ (k + 2)" by simp
    have "1 * (hi * hi) \<le> hi ^ k * (hi * hi)"
      using hi h0 by (intro mult_right_mono one_le_power) simp_all
    also have "\<dots> = hi ^ (k + 2)" by (simp add: power_add power2_eq_square)
    finally show "hi * hi \<le> hi ^ (k + 2)" by simp
  qed
  have low: "(s + a) * lo ^ (k + 2) \<le> fadd acc b"
  proof -
    have "s * lo ^ (k + 2) \<le> s * (lo ^ k * lo)" using Cons.prems(3) lok(1) by (rule mult_left_mono [rotated])
    also have "\<dots> = (s * lo ^ k) * lo" by simp
    also have "\<dots> \<le> acc * lo"
      using Cons.prems(4) lo(1) unfolding lo_def [symmetric] by (rule mult_right_mono)
    finally have 1: "s * lo ^ (k + 2) \<le> acc * lo" .
    have "a * lo ^ (k + 2) \<le> a * (lo * lo)" using a(1) lok(2) by (rule mult_left_mono [rotated])
    also have "\<dots> = (a * lo) * lo" by simp
    also have "\<dots> \<le> b * lo" using bb(1) lo(1) by (rule mult_right_mono)
    finally have 2: "a * lo ^ (k + 2) \<le> b * lo" .
    have "(s + a) * lo ^ (k + 2) \<le> (acc + b) * lo" using 1 2 by (simp add: algebra_simps)
    then show ?thesis using r(1) by simp
  qed
  have high: "fadd acc b \<le> (s + a) * hi ^ (k + 2)"
  proof -
    have h0: "0 \<le> hi" using hi by simp
    have "acc * hi \<le> (s * hi ^ k) * hi"
      using Cons.prems(5) h0 unfolding hi_def [symmetric] by (rule mult_right_mono)
    also have "\<dots> = s * (hi ^ k * hi)" by simp
    also have "\<dots> \<le> s * hi ^ (k + 2)" using hik(1) Cons.prems(3) by (rule mult_left_mono)
    finally have 1: "acc * hi \<le> s * hi ^ (k + 2)" .
    have "b * hi \<le> (a * hi) * hi" using bb(2) h0 by (rule mult_right_mono)
    also have "\<dots> = a * (hi * hi)" by simp
    also have "\<dots> \<le> a * hi ^ (k + 2)" using hik(2) a(1) by (rule mult_left_mono)
    finally have 2: "b * hi \<le> a * hi ^ (k + 2)" .
    have "(acc + b) * hi \<le> (s + a) * hi ^ (k + 2)" using 1 2 by (simp add: algebra_simps)
    then show ?thesis using r(2) by simp
  qed
  have sa: "0 \<le> s + a" using Cons.prems(3) a(1) by simp
  have rest: "\<forall>e \<in> set es. amount e * 100 \<in> \<nat>" using Cons.prems(1) by simp
  note ih = Cons.IH [OF rest r(3) sa low [unfolded lo_def] high [unfolded hi_def]]
  have k: "k + 2 + 2 * length es = k + 2 * length (e # es)" by simp
  have t: "s + a + sum_list (map amount es) = s + sum_list (map amount (e # es))"
    by (simp add: a_def)
  show ?case using ih unfolding k t by (simp add: a_def b_def)
qed

lemma sum_amounts_error:
  assumes "\<forall>e \<in> set es. amount e * 100 \<in> \<nat>"
  shows "sum_list (map amount es) * (1 - 1 / 2 ^ 53) ^ (2 * length es) \<le> sum_amounts es"
    and "sum_amounts es \<le> sum_list (map amount es) * (1 + 1 / 2 ^ 53) ^ (2 * length es)"
  using sum_amounts_error_acc [OF assms, of 0 0 0] by (simp_all add: sum_amounts_def)

lemma sum_amounts_error_filter:
  assumes "\<forall>e \<in> set es. amount e * 100 \<in> \<nat>"
  shows "sum_list (map amount (filter P es)) * (1 - 1 / 2 ^ 53) ^ (2 * length es)
      \<le> sum_amounts (filter P es)"
    and "sum_amounts (filter P es)
      \<le> sum_list (map amount (filter P es)) * (1 + 1 / 2 ^ 53) ^ (2 * length es)"
proof -
  define f where "f = sum_list (map amount (filter P es))"
  define n where "n = length (filter P es)"
  have c: "\<forall>e \<in> set (filter P es). amount e * 100 \<in> \<nat>" using assms by simp
  have f0: "0 \<le> f" unfolding f_def using c cents_amount(1) by (intro sum_list_nonneg) auto
  have n: "2 * n \<le> 2 * length es" by (simp add: n_def)
  have "(1 - 1 / 2 ^ 53 :: rat) ^ (2 * length es) \<le> (1 - 1 / 2 ^ 53) ^ (2 * n)"
    using n by (intro power_decreasing) simp_all
  then have "f * (1 - 1 / 2 ^ 53) ^ (2 * length es) \<le> f * (1 - 1 / 2 ^ 53) ^ (2 * n)"
    using f0 by (rule mult_left_mono)
  also have "\<dots> \<le> sum_amounts (filter P es)"
    unfolding f_def n_def by (rule sum_amounts_error(1) [OF c])
  finally show "sum_list (map amount (filter P es)) * (1 - 1 / 2 ^ 53) ^ (2 * length es)
      \<le> sum_amounts (filter P es)"
    by (simp only: f_def)
  have "(1 + 1 / 2 ^ 53 :: rat) ^ (2 * n) \<le> (1 + 1 / 2 ^ 53) ^ (2 * length es)"
    using n by (intro power_increasing) simp_all
  then have "f * (1 + 1 / 2 ^ 53) ^ (2 * n) \<le> f * (1 + 1 / 2 ^ 53) ^ (2 * length es)"
    using f0 by (rule mult_left_mono)
  moreover have "sum_amounts (filter P es) \<le> f * (1 + 1 / 2 ^ 53) ^ (2 * n)"
    unfolding f_def n_def by (rule sum_amounts_error(2) [OF c])
  ultimately show "sum_amounts (filter P es)
      \<le> sum_list (map amount (filter P es)) * (1 + 1 / 2 ^ 53) ^ (2 * length es)"
    by (simp only: f_def)
qed

subsection \<open>The category map\<close>

lemma Map_get_None: "Map_get m k = None \<longleftrightarrow> k \<notin> set (map fst m)"
  by (induction m) (auto split: if_splits)

lemma Map_get_set: "Map_get (Map_set m k v) k' = (if k' = k then Some v else Map_get m k')"
  by (induction m) auto

lemma keys_Map_set:
  "map fst (Map_set m k v) = (if k \<in> set (map fst m) then map fst m else map fst m @ [k])"
  by (induction m) (auto split: if_splits)

lemma keys_step:
  "map fst (categoryStep m e) =
     (if category_of e \<in> set (map fst m) then map fst m else map fst m @ [category_of e])"
  by (simp add: categoryStep_def Let_def keys_Map_set)

lemma distinct_step: "distinct (map fst m) \<Longrightarrow> distinct (map fst (categoryStep m e))"
  by (simp add: keys_step)

lemma distinct_foldl: "distinct (map fst m) \<Longrightarrow> distinct (map fst (foldl categoryStep m es))"
  by (induction es arbitrary: m) (simp_all add: distinct_step)

lemma keys_foldl:
  "set (map fst (foldl categoryStep m es)) = set (map fst m) \<union> set (map category_of es)"
proof (induction es arbitrary: m)
  case Nil
  show ?case by simp
next
  case (Cons e es)
  have "set (map fst (categoryStep m e)) = insert (category_of e) (set (map fst m))"
    by (auto simp: keys_step)
  then show ?case using Cons.IH [of "categoryStep m e"] by auto
qed

lemma held_step:
  "held (categoryStep m e) k =
     (if category_of e = k then fadd (held m k) (Number (amount e)) else held m k)"
  by (auto simp: categoryStep_def Let_def held_def Map_get_set split: option.split)

lemma held_foldl:
  "held (foldl categoryStep m es) k =
     foldl (\<lambda>acc e. fadd acc (Number (amount e))) (held m k)
       (filter (\<lambda>e. category_of e = k) es)"
  by (induction es arbitrary: m) (simp_all add: held_step)

lemma Map_get_distinct: "distinct (map fst m) \<Longrightarrow> (k, v) \<in> set m \<Longrightarrow> Map_get m k = Some v"
  by (induction m) (auto simp: rev_image_eqI)

lemma categorySummary_keys:
  "map cs_category (categorySummary es) = map fst (categoryMap_of es)"
  by (simp add: categorySummary_def case_prod_unfold)

lemma categorySummary_entry:
  assumes "b \<in> set (categorySummary es)"
  shows "cs_amount b = sum_amounts (filter (\<lambda>e. category_of e = cs_category b) es)"
proof -
  from assms obtain k d where kd: "(k, d) \<in> set (categoryMap_of es)"
    and b: "cs_category b = k" "cs_amount b = b_amount d"
    by (auto simp: categorySummary_def)
  have "distinct (map fst (categoryMap_of es))"
    unfolding categoryMap_of_def by (rule distinct_foldl) simp
  then have "Map_get (categoryMap_of es) k = Some d" using kd by (rule Map_get_distinct)
  then have "held (categoryMap_of es) k = b_amount d" by (simp add: held_def)
  moreover have "held (categoryMap_of es) k =
      sum_amounts (filter (\<lambda>e. category_of e = k) es)"
    using held_foldl [of "[]" es k] by (simp add: categoryMap_of_def held_def sum_amounts_def)
  ultimately show ?thesis using b by simp
qed

lemma sum_list_absent:
  "x \<notin> set ks \<Longrightarrow> sum_list (map (\<lambda>k. if x = k then a else 0) ks) = (0 :: rat)"
  by (induction ks) auto

lemma sum_list_single:
  "distinct ks \<Longrightarrow> x \<in> set ks \<Longrightarrow> sum_list (map (\<lambda>k. if x = k then a else 0) ks) = (a :: rat)"
  by (induction ks) (auto simp: sum_list_absent)

lemma sum_list_by_key:
  fixes f :: "'a \<Rightarrow> rat"
  assumes "distinct ks"
  shows "set (map c es) \<subseteq> set ks \<Longrightarrow>
     sum_list (map (\<lambda>k. sum_list (map f (filter (\<lambda>e. c e = k) es))) ks) = sum_list (map f es)"
proof (induction es)
  case Nil
  show ?case by simp
next
  case (Cons e es)
  have "map (\<lambda>k. sum_list (map f (filter (\<lambda>e. c e = k) (e # es)))) ks =
      map (\<lambda>k. (if c e = k then f e else 0) + sum_list (map f (filter (\<lambda>e. c e = k) es))) ks"
    by (intro map_cong) simp_all
  then have "sum_list (map (\<lambda>k. sum_list (map f (filter (\<lambda>e. c e = k) (e # es)))) ks) =
      sum_list (map (\<lambda>k. if c e = k then f e else 0) ks) +
      sum_list (map (\<lambda>k. sum_list (map f (filter (\<lambda>e. c e = k) es))) ks)"
    by (simp only: sum_list_addf)
  also have "sum_list (map (\<lambda>k. if c e = k then f e else 0) ks) = f e"
    using assms Cons.prems by (intro sum_list_single) simp_all
  also have "sum_list (map (\<lambda>k. sum_list (map f (filter (\<lambda>e. c e = k) es))) ks) =
      sum_list (map f es)"
    using Cons.prems by (intro Cons.IH) simp
  finally show ?case by simp
qed

lemma categorySummary_whole:
  assumes "\<forall>e \<in> set es. amount e \<in> \<nat>" and "sum_list (map amount es) < 2 ^ 53"
  shows "sum_list (map cs_amount (categorySummary es)) = sum_list (map amount es)"
proof -
  have d: "distinct (map cs_category (categorySummary es))"
    unfolding categorySummary_keys categoryMap_of_def by (rule distinct_foldl) simp
  have k: "set (map category_of es) \<subseteq> set (map cs_category (categorySummary es))"
    unfolding categorySummary_keys categoryMap_of_def keys_foldl by simp
  have "map cs_amount (categorySummary es) =
      map (\<lambda>b. sum_list (map amount (filter (\<lambda>e. category_of e = cs_category b) es)))
        (categorySummary es)"
    by (intro map_cong refl)
      (simp add: categorySummary_entry sum_amounts_whole_filter [OF assms])
  also have "\<dots> =
      map (\<lambda>k. sum_list (map amount (filter (\<lambda>e. category_of e = k) es)))
        (map cs_category (categorySummary es))"
    by (simp add: comp_def)
  finally show ?thesis by (simp only: sum_list_by_key [OF d k])
qed

lemma categorySummary_error:
  assumes "\<forall>e \<in> set es. amount e * 100 \<in> \<nat>"
  shows "sum_list (map amount es) * (1 - 1 / 2 ^ 53) ^ (2 * length es)
      \<le> sum_list (map cs_amount (categorySummary es))"
    and "sum_list (map cs_amount (categorySummary es))
      \<le> sum_list (map amount es) * (1 + 1 / 2 ^ 53) ^ (2 * length es)"
proof -
  define ks where "ks = map cs_category (categorySummary es)"
  define F where "F = (\<lambda>k. sum_list (map amount (filter (\<lambda>e. category_of e = k) es)))"
  define G where "G = (\<lambda>k. sum_amounts (filter (\<lambda>e. category_of e = k) es))"
  have d: "distinct ks"
    unfolding ks_def categorySummary_keys categoryMap_of_def by (rule distinct_foldl) simp
  have k: "set (map category_of es) \<subseteq> set ks"
    unfolding ks_def categorySummary_keys categoryMap_of_def keys_foldl by simp
  have "map cs_amount (categorySummary es) = map (\<lambda>b. G (cs_category b)) (categorySummary es)"
    unfolding G_def by (intro map_cong refl) (simp add: categorySummary_entry)
  also have "\<dots> = map G ks" by (simp add: ks_def comp_def)
  finally have buckets: "sum_list (map cs_amount (categorySummary es)) = sum_list (map G ks)"
    by (simp only:)
  have total: "sum_list (map F ks) = sum_list (map amount es)"
    unfolding F_def by (rule sum_list_by_key [OF d k])
  have "sum_list (map (\<lambda>k. F k * (1 - 1 / 2 ^ 53) ^ (2 * length es)) ks) \<le> sum_list (map G ks)"
    unfolding F_def G_def by (intro sum_list_mono sum_amounts_error_filter(1) [OF assms])
  then show "sum_list (map amount es) * (1 - 1 / 2 ^ 53) ^ (2 * length es)
      \<le> sum_list (map cs_amount (categorySummary es))"
    by (simp only: buckets sum_list_mult_const total)
  have "sum_list (map G ks) \<le> sum_list (map (\<lambda>k. F k * (1 + 1 / 2 ^ 53) ^ (2 * length es)) ks)"
    unfolding F_def G_def by (intro sum_list_mono sum_amounts_error_filter(2) [OF assms])
  then show "sum_list (map cs_amount (categorySummary es))
      \<le> sum_list (map amount es) * (1 + 1 / 2 ^ 53) ^ (2 * length es)"
    by (simp only: buckets sum_list_mult_const total)
qed

lemmas example_defs = example_expenses_def mk_expense_def cat_food_def cat_travel_def

lemma Number_numeral [simp]: "numeral k < (2 :: int) ^ 53 \<Longrightarrow> Number (numeral k) = numeral k"
  by (simp add: Number_def)

lemma Number_zero [simp]: "Number 0 = 0"
  by (simp add: Number_def rd_zero)

lemma Number_one [simp]: "Number 1 = 1"
  by (simp add: Number_def)

lemma fadd_numeral [simp]:
  "numeral (a + b) < (2 :: int) ^ 53 \<Longrightarrow> fadd (numeral a) (numeral b) = numeral (a + b)"
  by (simp add: fadd_def)

lemma fadd_zero_numeral [simp]:
  "numeral b < (2 :: int) ^ 53 \<Longrightarrow> fadd 0 (numeral b) = numeral b"
  by (simp add: fadd_def)

lemma example_whole:
  "\<forall>e \<in> set example_expenses. amount e \<in> \<nat>"
  "sum_list (map amount example_expenses) = 42"
  by (simp_all add: example_defs)

lemma example_total: "totalExpenses example_expenses = 42"
  by (simp add: totalExpenses_def sum_amounts_def example_defs)

lemma example_summary:
  "categorySummary example_expenses =
     [\<lparr>cs_category = ''Food'', cs_amount = 15, cs_color = ''#F59E0B''\<rparr>,
      \<lparr>cs_category = ''Travel'', cs_amount = 20, cs_color = ''#14B8A6''\<rparr>,
      \<lparr>cs_category = ''Other'', cs_amount = 7, cs_color = ''#6B7280''\<rparr>]"
  by (simp add: categorySummary_def categoryMap_of_def categoryStep_def category_of_def
      color_of_def or_default_def example_defs)

lemmas cent_defs = cent_expenses_def split_expenses_def mk_expense_def cat_food_def
  cat_travel_def

lemma cent_sums:
  "fadd (fadd (fadd 0 (Number (1 / 10))) (Number (1 / 5))) (Number (3 / 10)) =
     1351079888211149 / 2251799813685248"
  "fadd (fadd (fadd 0 (Number (3 / 10))) (Number (1 / 5))) (Number (1 / 10)) =
     5404319552844595 / 9007199254740992"
  "Number (3 / 5) = 5404319552844595 / 9007199254740992"
  by code_simp+

lemma split_sums:
  "fadd (fadd (fadd 0 (Number (1 / 10))) (Number (1 / 10))) (Number (11 / 10)) =
     5854679515581645 / 4503599627370496"
  "Number (13 / 10) = 5854679515581645 / 4503599627370496"
  by code_simp+

lemma split_buckets:
  "fadd (3602879701896397 / 36028797018963968) (Number (11 / 10)) =
     1351079888211149 / 1125899906842624"
  "fadd 0 (Number (1 / 10)) = 3602879701896397 / 36028797018963968"
  by code_simp+

lemma cent_totals:
  "totalExpenses cent_expenses = 1351079888211149 / 2251799813685248"
  "totalExpenses (rev cent_expenses) = 5404319552844595 / 9007199254740992"
  by (simp_all add: totalExpenses_def sum_amounts_def cent_defs cent_sums)

lemma split_total: "totalExpenses split_expenses = 5854679515581645 / 4503599627370496"
  by (simp add: totalExpenses_def sum_amounts_def cent_defs split_sums)

lemma split_summary:
  "categorySummary split_expenses =
     [\<lparr>cs_category = ''Food'', cs_amount = 1351079888211149 / 1125899906842624,
       cs_color = ''#F59E0B''\<rparr>,
      \<lparr>cs_category = ''Travel'', cs_amount = 3602879701896397 / 36028797018963968,
       cs_color = ''#14B8A6''\<rparr>]"
  by (simp add: categorySummary_def categoryMap_of_def categoryStep_def category_of_def
      color_of_def or_default_def cent_defs split_buckets)

text \<open>
  Claim C5, as the code has it. Total spend is the sum of the amounts taken from
  left to right in the arithmetic of doubles: every amount is read as the double nearest to it, and
  every addition is rounded. When the amounts are whole numbers with a sum below
  \<open>2 ^ 53\<close>, no addition rounds: the total is the sum of the amounts, and every
  permutation of the sequence has the same total. For amounts with cents neither
  holds in general (see the counterexample); when the amounts are non-negative
  with two decimals, the total of \<open>n\<close> expenses is the sum of the amounts up to
  the factors \<open>(1 - 1 / 2 ^ 53) ^ (2 * n)\<close> and \<open>(1 + 1 / 2 ^ 53) ^ (2 * n)\<close>.
\<close>

theorem totalExpenses_rounded_sum:
  "totalExpenses expenses = foldl (\<lambda>acc e. fadd acc (Number (amount e))) 0 expenses \<and>
   ((\<forall>e \<in> set expenses. amount e \<in> \<nat>) \<and> sum_list (map amount expenses) < 2 ^ 53 \<longrightarrow>
      totalExpenses expenses = sum_list (map amount expenses) \<and>
      (\<forall>ys. mset ys = mset expenses \<longrightarrow> totalExpenses ys = totalExpenses expenses)) \<and>
   ((\<forall>e \<in> set expenses. amount e * 100 \<in> \<nat>) \<longrightarrow>
      sum_list (map amount expenses) * (1 - 1 / 2 ^ 53) ^ (2 * length expenses)
        \<le> totalExpenses expenses \<and>
      totalExpenses expenses
        \<le> sum_list (map amount expenses) * (1 + 1 / 2 ^ 53) ^ (2 * length expenses))"
proof (intro conjI impI allI)
  show "totalExpenses expenses = foldl (\<lambda>acc e. fadd acc (Number (amount e))) 0 expenses"
    by (simp add: totalExpenses_def sum_amounts_def)
next
  assume "(\<forall>e \<in> set expenses. amount e \<in> \<nat>) \<and> sum_list (map amount expenses) < 2 ^ 53"
  then show "totalExpenses expenses = sum_list (map amount expenses)"
    by (simp add: totalExpenses_def sum_amounts_whole)
next
  fix ys :: "expense list"
  assume w: "(\<forall>e \<in> set expenses. amount e \<in> \<nat>) \<and> sum_list (map amount expenses) < 2 ^ 53"
    and m: "mset ys = mset expenses"
  from m have s: "set ys = set expenses" by (rule mset_eq_setD)
  from m have "mset (map amount ys) = mset (map amount expenses)" by (metis mset_map)
  then have "sum_mset (mset (map amount ys)) = sum_mset (mset (map amount expenses))"
    by (rule arg_cong)
  then have l: "sum_list (map amount ys) = sum_list (map amount expenses)"
    by (simp only: sum_mset_sum_list)
  have "sum_amounts ys = sum_list (map amount ys)"
    using w s l by (intro sum_amounts_whole) simp_all
  moreover have "sum_amounts expenses = sum_list (map amount expenses)"
    using w by (intro sum_amounts_whole) simp_all
  ultimately show "totalExpenses ys = totalExpenses expenses"
    using l by (simp add: totalExpenses_def)
next
  assume "\<forall>e \<in> set expenses. amount e * 100 \<in> \<nat>"
  then show "sum_list (map amount expenses) * (1 - 1 / 2 ^ 53) ^ (2 * length expenses)
      \<le> totalExpenses expenses"
    unfolding totalExpenses_def by (rule sum_amounts_error(1))
next
  assume "\<forall>e \<in> set expenses. amount e * 100 \<in> \<nat>"
  then show "totalExpenses expenses
      \<le> sum_list (map amount expenses) * (1 + 1 / 2 ^ 53) ^ (2 * length expenses)"
    unfolding totalExpenses_def by (rule sum_amounts_error(2))
qed

theorem totalExpenses_rounded_sum_witness:
  "set (map amount example_expenses) \<subseteq> \<nat> \<and>
   sum_list (map amount example_expenses) < 2 ^ 53 \<and>
   totalExpenses example_expenses = 42 \<and>
   totalExpenses (rev example_expenses) = totalExpenses example_expenses \<and>
   set (map (\<lambda>e. amount e * 100) cent_expenses) \<subseteq> \<nat> \<and>
   3 / 5 * (1 - 1 / 2 ^ 53) ^ 6 \<le> totalExpenses cent_expenses \<and>
   totalExpenses cent_expenses \<le> 3 / 5 * (1 + 1 / 2 ^ 53) ^ 6"
proof -
  have cw: "\<forall>e \<in> set cent_expenses. amount e * 100 \<in> \<nat>" by (simp add: cent_defs)
  have cs: "sum_list (map amount cent_expenses) = 3 / 5" "2 * length cent_expenses = 6"
    by (simp_all add: cent_defs)
  note b = totalExpenses_rounded_sum [of cent_expenses, THEN conjunct2, THEN conjunct2,
      THEN mp, OF cw, unfolded cs]
  have cents: "set (map (\<lambda>e. amount e * 100) cent_expenses) \<subseteq> \<nat>" using cw by auto
  have w: "(\<forall>e \<in> set example_expenses. amount e \<in> \<nat>) \<and>
      sum_list (map amount example_expenses) < 2 ^ 53"
    by (simp add: example_whole)
  have m: "mset (rev example_expenses) = mset example_expenses" by simp
  note t = totalExpenses_rounded_sum [of example_expenses, THEN conjunct2, THEN conjunct1,
      THEN mp, OF w]
  have "totalExpenses example_expenses = 42" using t [THEN conjunct1] by (simp add: example_whole)
  moreover have "totalExpenses (rev example_expenses) = totalExpenses example_expenses"
    using t [THEN conjunct2, rule_format, OF m] .
  moreover have "set (map amount example_expenses) \<subseteq> \<nat>" using w by auto
  ultimately show ?thesis using w cents b by (intro conjI) simp_all
qed

text \<open>
  Claim C5 as stated fails for the amounts 0.10, 0.20 and 0.30: their sum is 0.60,
  the total in this order is 0.6000000000000001, and in the reverse order it is
  the double nearest to 0.60.
\<close>

theorem totalExpenses_order_counterexample:
  "mset (rev cent_expenses) = mset cent_expenses \<and>
   sum_list (map amount cent_expenses) = 3 / 5 \<and>
   totalExpenses cent_expenses = 1351079888211149 / 2251799813685248 \<and>
   totalExpenses (rev cent_expenses) = Number (3 / 5) \<and>
   totalExpenses (rev cent_expenses) \<noteq> totalExpenses cent_expenses \<and>
   totalExpenses cent_expenses \<noteq> sum_list (map amount cent_expenses)"
proof -
  have s: "sum_list (map amount cent_expenses) = 3 / 5" by (simp add: cent_defs)
  show ?thesis by (simp add: s cent_totals cent_sums)
qed

text \<open>
  Claim C1, as the code has it. The category summary has one bucket for each resolved category name of
  the expenses, without repetition; an expense without a category resolves to the
  bucket "Other". A bucket holds the
  amounts of the expenses that resolve to its name, added from left to right in
  the arithmetic of doubles, so every expense is counted in exactly one bucket.
  When the amounts are whole numbers with a sum below \<open>2 ^ 53\<close>, the amounts of the
  buckets add up to the total spend. For amounts with cents they need not: a
  bucket and the total round at different additions (see the counterexample).
  When the amounts are non-negative with two decimals, the amounts of the buckets
  add up to the sum of the amounts of the \<open>n\<close> expenses up to the factors
  \<open>(1 - 1 / 2 ^ 53) ^ (2 * n)\<close> and \<open>(1 + 1 / 2 ^ 53) ^ (2 * n)\<close>, as the total spend
  does.
\<close>

theorem categorySummary_buckets:
  "distinct (map cs_category (categorySummary expenses)) \<and>
   set (map cs_category (categorySummary expenses)) = set (map category_of expenses) \<and>
   (\<forall>b \<in> set (categorySummary expenses).
      cs_amount b =
        totalExpenses (filter (\<lambda>e. category_of e = cs_category b) expenses)) \<and>
   (\<forall>e \<in> set expenses. expense_categories e = None \<longrightarrow> category_of e = ''Other'') \<and>
   ((\<forall>e \<in> set expenses. amount e \<in> \<nat>) \<and> sum_list (map amount expenses) < 2 ^ 53 \<longrightarrow>
      sum_list (map cs_amount (categorySummary expenses)) = totalExpenses expenses) \<and>
   ((\<forall>e \<in> set expenses. amount e * 100 \<in> \<nat>) \<longrightarrow>
      sum_list (map amount expenses) * (1 - 1 / 2 ^ 53) ^ (2 * length expenses)
        \<le> sum_list (map cs_amount (categorySummary expenses)) \<and>
      sum_list (map cs_amount (categorySummary expenses))
        \<le> sum_list (map amount expenses) * (1 + 1 / 2 ^ 53) ^ (2 * length expenses))"
proof -
  have "distinct (map cs_category (categorySummary expenses))"
    unfolding categorySummary_keys categoryMap_of_def by (rule distinct_foldl) simp
  moreover have "set (map cs_category (categorySummary expenses)) = set (map category_of expenses)"
    unfolding categorySummary_keys categoryMap_of_def keys_foldl by simp
  moreover have "\<forall>e \<in> set expenses. expense_categories e = None \<longrightarrow> category_of e = ''Other''"
    by (simp add: category_of_def or_default_def)
  moreover have "\<forall>b \<in> set (categorySummary expenses).
      cs_amount b =
        totalExpenses (filter (\<lambda>e. category_of e = cs_category b) expenses)"
    unfolding totalExpenses_def by (intro ballI categorySummary_entry)
  moreover have "(\<forall>e \<in> set expenses. amount e \<in> \<nat>) \<and> sum_list (map amount expenses) < 2 ^ 53 \<longrightarrow>
      sum_list (map cs_amount (categorySummary expenses)) = totalExpenses expenses"
    by (simp add: categorySummary_whole sum_amounts_whole totalExpenses_def)
  moreover have "(\<forall>e \<in> set expenses. amount e * 100 \<in> \<nat>) \<longrightarrow>
      sum_list (map amount expenses) * (1 - 1 / 2 ^ 53) ^ (2 * length expenses)
        \<le> sum_list (map cs_amount (categorySummary expenses)) \<and>
      sum_list (map cs_amount (categorySummary expenses))
        \<le> sum_list (map amount expenses) * (1 + 1 / 2 ^ 53) ^ (2 * length expenses)"
    using categorySummary_error [of expenses] by blast
  ultimately show ?thesis by (intro conjI)
qed

theorem categorySummary_buckets_witness:
  "set (map amount example_expenses) \<subseteq> \<nat> \<and>
   sum_list (map amount example_expenses) < 2 ^ 53 \<and>
   map cs_category (categorySummary example_expenses) = [''Food'', ''Travel'', ''Other''] \<and>
   map cs_amount (categorySummary example_expenses) = [15, 20, 7] \<and>
   (\<exists>e \<in> set example_expenses. expense_categories e = None) \<and>
   sum_list (map cs_amount (categorySummary example_expenses)) = totalExpenses example_expenses \<and>
   totalExpenses example_expenses = 42 \<and>
   set (map (\<lambda>e. amount e * 100) split_expenses) \<subseteq> \<nat> \<and>
   13 / 10 * (1 - 1 / 2 ^ 53) ^ 6 \<le> sum_list (map cs_amount (categorySummary split_expenses)) \<and>
   sum_list (map cs_amount (categorySummary split_expenses)) \<le> 13 / 10 * (1 + 1 / 2 ^ 53) ^ 6"
proof -
  have cw: "\<forall>e \<in> set split_expenses. amount e * 100 \<in> \<nat>" by (simp add: cent_defs)
  have cs: "sum_list (map amount split_expenses) = 13 / 10" "2 * length split_expenses = 6"
    by (simp_all add: cent_defs)
  have "(\<forall>e \<in> set split_expenses. amount e * 100 \<in> \<nat>) \<longrightarrow>
      sum_list (map amount split_expenses) * (1 - 1 / 2 ^ 53) ^ (2 * length split_expenses)
        \<le> sum_list (map cs_amount (categorySummary split_expenses)) \<and>
      sum_list (map cs_amount (categorySummary split_expenses))
        \<le> sum_list (map amount split_expenses) * (1 + 1 / 2 ^ 53) ^ (2 * length split_expenses)"
    using categorySummary_buckets [of split_expenses] by blast
  note b = this [THEN mp, OF cw, unfolded cs]
  have cents: "set (map (\<lambda>e. amount e * 100) split_expenses) \<subseteq> \<nat>" using cw by auto
  have w: "(\<forall>e \<in> set example_expenses. amount e \<in> \<nat>) \<and>
      sum_list (map amount example_expenses) < 2 ^ 53"
    by (simp add: example_whole)
  have n: "\<exists>e \<in> set example_expenses. expense_categories e = None"
    by (simp add: example_defs)
  have "sum_list (map cs_amount (categorySummary example_expenses)) =
      totalExpenses example_expenses"
    using categorySummary_buckets [of example_expenses] w by simp
  moreover have "set (map amount example_expenses) \<subseteq> \<nat>" using w by auto
  moreover note cents b
  ultimately show ?thesis using w n by (simp add: example_summary example_total)
qed

text \<open>
  Claim C1 as stated fails for the amounts 0.10 and 1.10 of one category and 0.10
  of another: the buckets hold 1.2000000000000002 and 0.1, the total is 1.3, and
  the buckets add up to more than the total, in exact and in double arithmetic.
\<close>

theorem categorySummary_sum_counterexample:
  "map cs_category (categorySummary split_expenses) = [''Food'', ''Travel''] \<and>
   map cs_amount (categorySummary split_expenses) =
     [1351079888211149 / 1125899906842624, 3602879701896397 / 36028797018963968] \<and>
   totalExpenses split_expenses = Number (13 / 10) \<and>
   sum_list (map cs_amount (categorySummary split_expenses)) \<noteq> totalExpenses split_expenses \<and>
   fadd (1351079888211149 / 1125899906842624) (3602879701896397 / 36028797018963968) \<noteq>
     totalExpenses split_expenses"
proof -
  have "fadd (1351079888211149 / 1125899906842624) (3602879701896397 / 36028797018963968) \<noteq>
      5854679515581645 / (4503599627370496 :: rat)"
    by code_simp
  then show ?thesis by (simp add: split_summary split_total split_sums)
qed

section \<open>Properties of the budget evaluator\<close>

lemma fmul_mono: "a \<le> b \<Longrightarrow> fmul a 100 \<le> fmul b 100"
  unfolding fmul_def by (rule rd_mono) simp

lemma fdiv_mono: "0 < l \<Longrightarrow> a / l \<le> q \<Longrightarrow> fdiv a l \<le> rd q"
  unfolding fdiv_def by (rule rd_mono)

lemma percent_of_four_fifths: "fmul (rd (4 / 5)) 100 = 80"
  by code_simp

lemma percent_of_one: "fmul 1 100 = 100"
  by (simp add: fmul_def)

lemma percent_of_zero: "fmul 0 100 = 0"
  by (simp add: fmul_def rd_zero)

lemma percentage_le_80:
  assumes "0 < l" and "s / l \<le> 4 / 5"
  shows "fmul (fdiv s l) 100 \<le> 80"
  using fmul_mono [OF fdiv_mono [OF assms]] by (simp add: percent_of_four_fifths)

lemma percentage_le_100:
  assumes "0 < l" and "s \<le> l"
  shows "fmul (fdiv s l) 100 \<le> 100"
proof -
  have "s / l \<le> 1" using assms by simp
  from fmul_mono [OF fdiv_mono [OF assms(1) this]] show ?thesis
    by (simp add: percent_of_one)
qed

lemma percentage_nonneg:
  assumes "0 < l" and "0 \<le> s"
  shows "0 \<le> fmul (fdiv s l) 100"
proof -
  have "rd 0 \<le> fdiv s l" unfolding fdiv_def using assms by (intro rd_mono) simp
  then have "fmul 0 100 \<le> fmul (fdiv s l) 100" by (intro fmul_mono) (simp add: rd_zero)
  then show ?thesis by (simp add: percent_of_zero)
qed

subsection \<open>Two different doubles are a unit in the last place apart\<close>

lemma round_even_above_half:
  assumes "of_int n + 1 / 2 < q"
  shows "n + 1 \<le> round_even q"
proof (cases "n + 1 \<le> \<lfloor>q\<rfloor>")
  case True
  then show ?thesis using round_even_cases [of q] by linarith
next
  case False
  have "n \<le> \<lfloor>q\<rfloor>" using assms by (simp add: le_floor_iff)
  then have f: "\<lfloor>q\<rfloor> = n" using False by simp
  then show ?thesis using assms by (simp add: round_even_def Let_def)
qed

lemma double_next:
  assumes "rd x = x" and "rd y = y" and "0 < y" and "y < x"
  shows "y * (1 + 1 / 2 ^ 53) < x"
proof -
  define ey where "ey = max (binade \<bar>y\<bar>) (- 1022)"
  define ex where "ex = max (binade \<bar>x\<bar>) (- 1022)"
  define uy where "uy = pow2 (ey - 52)"
  define ux where "ux = pow2 (ex - 52)"
  define j where "j = round_even (y / uy)"
  define i where "i = round_even (x / ux)"
  have x: "0 < x" using assms by simp
  have ax: "\<bar>x\<bar> = x" "\<bar>y\<bar> = y" and n0: "x \<noteq> 0" "y \<noteq> 0" using assms x by simp_all
  have uy: "0 < uy" and ux: "0 < ux" by (simp_all add: uy_def ux_def pow2_pos)
  have yj: "y = of_int j * uy"
    using rd_eq [OF n0(2) ey_def uy_def] assms(2) by (simp add: j_def)
  have xi: "x = of_int i * ux"
    using rd_eq [OF n0(1) ex_def ux_def] assms(1) by (simp add: i_def)
  have "binade y \<le> binade x" using assms by (intro binade_mono) simp_all
  then have e: "ey \<le> ex" by (simp add: ey_def ex_def ax)
  define d where "d = nat (ex - ey)"
  have "ex - 52 = (ey - 52) + int d" using e by (simp add: d_def)
  then have "ux = uy * pow2 (int d)" unfolding ux_def uy_def by (simp only: pow2_add)
  then have uxy: "ux = uy * 2 ^ d" by (simp add: pow2_nat)
  have xk: "x = of_int (i * 2 ^ d) * uy" by (simp add: xi uxy)
  have "of_int j * uy < of_int (i * 2 ^ d) * uy" using assms(4) yj xk by (simp only:)
  then have "(of_int j :: rat) < of_int (i * 2 ^ d)" using uy by (simp only: mult_less_cancel_right_pos)
  then have "j < i * 2 ^ d" by (simp only: of_int_less_iff)
  then have "j + 1 \<le> i * 2 ^ d" by simp
  then have "(of_int (j + 1) :: rat) \<le> of_int (i * 2 ^ d)" by (simp only: of_int_le_iff)
  then have "of_int (j + 1) * uy \<le> of_int (i * 2 ^ d) * uy" using uy by (simp only: mult_le_cancel_right_pos)
  then have step: "y + uy \<le> x" unfolding xk [symmetric] by (simp add: yj algebra_simps)
  have "y < pow2 (binade y + 1)" by (rule binade_bounds(2) [OF assms(3)])
  also have "\<dots> \<le> pow2 (ey + 1)" by (intro pow2_mono) (simp add: ey_def ax)
  also have "\<dots> = 2 ^ 53 * uy"
    using pow2_52 [of ey] pow2_pos [of "ey - 52"] by (simp add: uy_def field_simps)
  finally have "y / 2 ^ 53 < uy" by (simp add: field_simps)
  moreover have "y * (1 + 1 / 2 ^ 53) = y + y / 2 ^ 53"
    by (simp only: distrib_left mult_1_right times_divide_eq_right)
  ultimately show ?thesis using step by linarith
qed

lemma rd_above_one:
  assumes "1 + 1 / 2 ^ 53 < q"
  shows "1 + 1 / 2 ^ 52 \<le> rd q"
proof -
  define q' where "q' = min q (3 / 2)"
  have q': "1 + 1 / 2 ^ 53 < q'" "q' \<le> 3 / 2" "q' \<le> q" using assms by (simp_all add: q'_def)
  have pos: "0 < q'" and nz: "q' \<noteq> 0" and ab: "\<bar>q'\<bar> = q'"
    using q'(1) by (simp_all add: less_trans [OF _ q'(1)] abs_of_pos)
  have "1 \<le> q'" using q'(1) by simp
  then have "binade q' = 0" using pos q'(2) by (intro binade_unique) (simp_all add: pow2_def)
  then have e: "0 = max (binade \<bar>q'\<bar>) (- 1022)" by (simp add: ab)
  have u: "pow2 (- 52) = pow2 (0 - 52)" by simp
  have r: "rd q' = of_int (round_even (q' / pow2 (- 52))) * pow2 (- 52)"
    by (rule rd_eq [OF nz e u])
  have "of_int (2 ^ 52) + 1 / 2 < q' / pow2 (- 52)"
    using q'(1) by (simp add: pow2_def field_simps)
  then have "2 ^ 52 + 1 \<le> round_even (q' / pow2 (- 52))" by (rule round_even_above_half)
  then have "(of_int (2 ^ 52 + 1) :: rat) \<le> of_int (round_even (q' / pow2 (- 52)))"
    by (simp only: of_int_le_iff)
  then have "of_int (2 ^ 52 + 1) * pow2 (- 52) \<le> rd q'"
    unfolding r using pow2_pos [of "- 52"] by (simp only: mult_le_cancel_right_pos)
  moreover have "of_int (2 ^ 52 + 1) * pow2 (- 52) = 1 + 1 / 2 ^ 52" by (simp add: pow2_def)
  ultimately have "1 + 1 / 2 ^ 52 \<le> rd q'" by simp
  also have "\<dots> \<le> rd q" using q'(3) by (rule rd_mono)
  finally show ?thesis .
qed

lemma percent_above_one: "100 < fmul (1 + 1 / 2 ^ 52) 100"
  by code_simp

lemma percentage_gt_100:
  assumes "rd s = s" and "rd l = l" and "0 < l" and "l < s"
  shows "100 < fmul (fdiv s l) 100"
proof -
  from double_next [OF assms] have "1 + 1 / 2 ^ 53 < s / l"
    using assms(3) by (simp add: field_simps)
  then have "1 + 1 / 2 ^ 52 \<le> fdiv s l" unfolding fdiv_def by (rule rd_above_one)
  then have "fmul (1 + 1 / 2 ^ 52) 100 \<le> fmul (fdiv s l) 100"
    unfolding fmul_def by (intro rd_mono) simp
  then show ?thesis using percent_above_one by simp
qed

text \<open>
  Claim C2, as the code has it. For a non-negative spend and a limit whose double
  is strictly positive, the percentage is spend / limit * 100 in the arithmetic
  of doubles: the quotient is rounded, and so is the product. It is not negative.
  The state is over exactly when this percentage exceeds 100, and then the
  overage spend - limit is shown; it is near exactly when 80 < percentage <= 100,
  and then the remaining limit - spend is shown; otherwise no alert is shown;
  over and near exclude each other. The rounding never raises an alert early: over implies that
  the spend exceeds the limit, near implies that it exceeds 0.80 of the limit, and
  a spend of at most 0.80 of the limit (in particular exactly 0.80) shows no
  alert. A spend that is a double, as the state of the component is, and exceeds
  the limit is over. Spend and limit are here the doubles that the component
  holds, not the decimals of the table; see the counterexample.
\<close>

theorem budget_classification_rounded:
  assumes "0 \<le> spend" and "0 < Number (limit_amount b)"
  shows "percentage (Some b) spend = fmul (fdiv spend (Number (limit_amount b))) 100 \<and>
    0 \<le> percentage (Some b) spend \<and>
    (isOverBudget (Some b) spend \<longleftrightarrow> percentage (Some b) spend > 100) \<and>
    (isNearLimit (Some b) spend \<longleftrightarrow>
       80 < percentage (Some b) spend \<and> percentage (Some b) spend \<le> 100) \<and>
    \<not> (isOverBudget (Some b) spend \<and> isNearLimit (Some b) spend) \<and>
    alerts (render_budget (Some b) spend) =
      (if isOverBudget (Some b) spend
       then [Exceeded (fsub spend (Number (limit_amount b)))]
       else if isNearLimit (Some b) spend
       then [Approaching (fsub (Number (limit_amount b)) spend)]
       else []) \<and>
    (isOverBudget (Some b) spend \<longrightarrow> Number (limit_amount b) < spend) \<and>
    (Number spend = spend \<and> Number (limit_amount b) < spend \<longrightarrow>
       isOverBudget (Some b) spend) \<and>
    (isNearLimit (Some b) spend \<longrightarrow> 4 / 5 * Number (limit_amount b) < spend) \<and>
    (spend / Number (limit_amount b) \<le> 4 / 5 \<longrightarrow>
       \<not> isOverBudget (Some b) spend \<and> \<not> isNearLimit (Some b) spend \<and>
       alerts (render_budget (Some b) spend) = [])"
proof -
  define l where "l = Number (limit_amount b)"
  have l: "0 < l" using assms(2) by (simp add: l_def)
  have p: "percentage (Some b) spend = fmul (fdiv spend l) 100"
    by (simp add: percentage_def l_def)
  have nn: "0 \<le> percentage (Some b) spend"
    unfolding p using l assms(1) by (rule percentage_nonneg)
  have o1: "isOverBudget (Some b) spend \<longleftrightarrow> percentage (Some b) spend > 100"
    by (simp add: isOverBudget_def)
  have n1: "isNearLimit (Some b) spend \<longleftrightarrow>
       80 < percentage (Some b) spend \<and> percentage (Some b) spend \<le> 100"
    by (simp add: isNearLimit_def)
  have ex: "\<not> (isOverBudget (Some b) spend \<and> isNearLimit (Some b) spend)"
    by (simp add: isOverBudget_def isNearLimit_def)
  have al: "alerts (render_budget (Some b) spend) =
      (if isOverBudget (Some b) spend then [Exceeded (fsub spend l)]
       else if isNearLimit (Some b) spend then [Approaching (fsub l spend)]
       else [])"
    by (simp add: render_budget_def l_def)
  have over: "isOverBudget (Some b) spend \<longrightarrow> l < spend"
  proof (rule impI, rule ccontr)
    assume o: "isOverBudget (Some b) spend" and "\<not> l < spend"
    then have "spend \<le> l" by simp
    from percentage_le_100 [OF l this] o show False by (simp add: isOverBudget_def p)
  qed
  have over': "Number spend = spend \<and> l < spend \<longrightarrow> isOverBudget (Some b) spend"
  proof
    assume a: "Number spend = spend \<and> l < spend"
    have "rd l = l" using Number_idem [of "limit_amount b"] by (simp add: l_def Number_def)
    moreover have "rd spend = spend" using a by (simp add: Number_def)
    ultimately have "100 < fmul (fdiv spend l) 100" using l a by (intro percentage_gt_100) simp_all
    then show "isOverBudget (Some b) spend" by (simp add: isOverBudget_def p)
  qed
  have low: "spend / l \<le> 4 / 5 \<longrightarrow> percentage (Some b) spend \<le> 80"
    unfolding p using percentage_le_80 [OF l] by blast
  have near: "isNearLimit (Some b) spend \<longrightarrow> 4 / 5 * l < spend"
  proof (rule impI, rule ccontr)
    assume n: "isNearLimit (Some b) spend" and "\<not> 4 / 5 * l < spend"
    then have "spend / l \<le> 4 / 5" using l by (simp add: field_simps)
    with low n show False by (simp add: isNearLimit_def)
  qed
  have b80: "spend / l \<le> 4 / 5 \<longrightarrow>
       \<not> isOverBudget (Some b) spend \<and> \<not> isNearLimit (Some b) spend \<and>
       alerts (render_budget (Some b) spend) = []"
  proof
    assume "spend / l \<le> 4 / 5"
    with low have "percentage (Some b) spend \<le> 80" by simp
    then have "\<not> isOverBudget (Some b) spend" "\<not> isNearLimit (Some b) spend"
      by (simp_all add: isOverBudget_def isNearLimit_def)
    then show "\<not> isOverBudget (Some b) spend \<and> \<not> isNearLimit (Some b) spend \<and>
       alerts (render_budget (Some b) spend) = []"
      by (simp add: al)
  qed
  from p nn o1 n1 ex al over over' near b80 show ?thesis unfolding l_def by (intro conjI)
qed

lemma example_percentages:
  "fmul (fdiv 85 100) 100 = 85"
  "fmul (fdiv 120 100) 100 = 120"
  "fmul (fdiv 80 100) 100 = 80"
  "fsub 100 85 = 15"
  "fsub 120 100 = 20"
  by code_simp+

theorem budget_classification_rounded_witness:
  "(0 :: rat) \<le> 80 \<and> 0 < Number (limit_amount example_budget) \<and>
   (80 :: rat) / Number (limit_amount example_budget) \<le> 4 / 5 \<and> Number 80 = 80 \<and>
   percentage (Some example_budget) 80 = 80 \<and>
   \<not> isNearLimit (Some example_budget) 80 \<and> \<not> isOverBudget (Some example_budget) 80 \<and>
   render_budget (Some example_budget) 80 = BudgetPanel 80 80 [] \<and>
   render_budget (Some example_budget) 85 = BudgetPanel 85 85 [Approaching 15] \<and>
   render_budget (Some example_budget) 120 = BudgetPanel 100 120 [Exceeded 20]"
proof -
  have lim: "Number (limit_amount example_budget) = 100" by (simp add: example_budget_def)
  have l: "0 < Number (limit_amount example_budget)" by (simp add: lim)
  have s: "(0 :: rat) \<le> 80" by simp
  have q: "(80 :: rat) / Number (limit_amount example_budget) \<le> 4 / 5" by (simp add: lim)
  note c = budget_classification_rounded [OF s l]
  have p: "percentage (Some example_budget) 80 = 80"
    using c [THEN conjunct1] by (simp add: lim example_percentages)
  have b80: "\<not> isOverBudget (Some example_budget) 80 \<and> \<not> isNearLimit (Some example_budget) 80 \<and>
       alerts (render_budget (Some example_budget) 80) = []"
    using c q by blast
  have r: "render_budget (Some example_budget) 80 = BudgetPanel 80 80 []"
    "render_budget (Some example_budget) 85 = BudgetPanel 85 85 [Approaching 15]"
    "render_budget (Some example_budget) 120 = BudgetPanel 100 120 [Exceeded 20]"
    by (simp_all add: render_budget_def percentage_def isOverBudget_def isNearLimit_def lim
        example_percentages)
  have d: "Number 80 = 80" by simp
  from s l q d p b80 r show ?thesis by (intro conjI) simp_all
qed

lemma cent_budget_numbers:
  "Number (2042 / 25) = 1436929756107899 / 17592186044416"
  "Number (1021 / 10) = 3592324390269747 / 35184372088832"
  "fadd 0 (1436929756107899 / 17592186044416) = 1436929756107899 / 17592186044416"
  "fmul (fdiv (1436929756107899 / 17592186044416) (3592324390269747 / 35184372088832)) 100 =
     5629499534213121 / 70368744177664"
  "fsub (3592324390269747 / 35184372088832) (1436929756107899 / 17592186044416) =
     718464878053949 / 35184372088832"
  by code_simp+

lemma small_budget_numbers:
  "Number (1 / 10) = 3602879701896397 / 36028797018963968"
  "Number (1 / 5) = 3602879701896397 / 18014398509481984"
  "Number (3 / 10) = 5404319552844595 / 18014398509481984"
  "fadd 0 (3602879701896397 / 36028797018963968) = 3602879701896397 / 36028797018963968"
  "fadd (3602879701896397 / 36028797018963968) (3602879701896397 / 18014398509481984) =
     1351079888211149 / 4503599627370496"
  "fmul (fdiv (1351079888211149 / 4503599627370496) (5404319552844595 / 18014398509481984)) 100 =
     3518437208883201 / 35184372088832"
  "fsub (1351079888211149 / 4503599627370496) (5404319552844595 / 18014398509481984) =
     1 / 18014398509481984"
  by code_simp+

lemma cent_spend_total: "sum_amounts cent_spend = 1436929756107899 / 17592186044416"
  by (simp add: sum_amounts_def cent_spend_def mk_expense_def cent_budget_numbers)

lemma small_spend_total: "sum_amounts small_spend = 1351079888211149 / 4503599627370496"
  by (simp add: sum_amounts_def small_spend_def mk_expense_def small_budget_numbers)

text \<open>
  Claim C2 as stated fails at the boundaries. A limit of 102.10 and one expense of
  81.68: the spend is exactly 0.80 of the limit, the component computes
  80.00000000000001, which is neither 80 nor the exact percentage of the two
  doubles, and shows the approaching alert. A limit of 0.30 and expenses of 0.10
  and 0.20: the spend is exactly the limit, the component adds them up to
  0.30000000000000004, computes 100.00000000000001 and shows the exceeded alert.
\<close>

theorem budget_decimal_boundary_counterexample:
  "sum_list (map amount cent_spend) / limit_amount cent_budget = 4 / 5 \<and>
   percentage (Some cent_budget) (sum_amounts cent_spend) =
     5629499534213121 / 70368744177664 \<and>
   percentage (Some cent_budget) (sum_amounts cent_spend) \<noteq>
     sum_list (map amount cent_spend) / limit_amount cent_budget * 100 \<and>
   percentage (Some cent_budget) (sum_amounts cent_spend) \<noteq>
     sum_amounts cent_spend / Number (limit_amount cent_budget) * 100 \<and>
   isNearLimit (Some cent_budget) (sum_amounts cent_spend) \<and>
   alerts (render_budget (Some cent_budget) (sum_amounts cent_spend)) =
     [Approaching (718464878053949 / 35184372088832)] \<and>
   sum_list (map amount small_spend) = limit_amount small_budget \<and>
   percentage (Some small_budget) (sum_amounts small_spend) =
     3518437208883201 / 35184372088832 \<and>
   isOverBudget (Some small_budget) (sum_amounts small_spend) \<and>
   alerts (render_budget (Some small_budget) (sum_amounts small_spend)) =
     [Exceeded (1 / 18014398509481984)]"
proof -
  have c: "sum_list (map amount cent_spend) = 2042 / 25" "limit_amount cent_budget = 1021 / 10"
    by (simp_all add: cent_spend_def cent_budget_def mk_expense_def)
  have s: "sum_list (map amount small_spend) = 3 / 10" "limit_amount small_budget = 3 / 10"
    by (simp_all add: small_spend_def small_budget_def mk_expense_def)
  have pc: "percentage (Some cent_budget) (sum_amounts cent_spend) =
      5629499534213121 / 70368744177664"
    by (simp add: percentage_def cent_spend_total c cent_budget_numbers)
  have ps: "percentage (Some small_budget) (sum_amounts small_spend) =
      3518437208883201 / 35184372088832"
    by (simp add: percentage_def small_spend_total s small_budget_numbers)
  have ac: "alerts (render_budget (Some cent_budget) (sum_amounts cent_spend)) =
      [Approaching (718464878053949 / 35184372088832)]"
    by (simp add: render_budget_def isOverBudget_def isNearLimit_def pc)
      (simp add: cent_spend_total c cent_budget_numbers)
  have as: "alerts (render_budget (Some small_budget) (sum_amounts small_spend)) =
      [Exceeded (1 / 18014398509481984)]"
    by (simp add: render_budget_def isOverBudget_def isNearLimit_def ps)
      (simp add: small_spend_total s small_budget_numbers)
  have ne: "percentage (Some cent_budget) (sum_amounts cent_spend) \<noteq>
      sum_amounts cent_spend / Number (limit_amount cent_budget) * 100"
    unfolding pc by (simp add: cent_spend_total c cent_budget_numbers)
  show ?thesis
    using ne by (simp add: pc ps ac as isOverBudget_def isNearLimit_def) (simp add: c s)
qed

section \<open>Properties of the calendar\<close>

text \<open>
  \<open>civil_from_days\<close> returns a month from 1 to 12 and a day from 1 to 31, and
  \<open>days_from_civil\<close> is its inverse. The year of the era is checked on the first and
  the last day of each of the 400 years; in between it is monotone.
\<close>

lemma mono_a: "(x::int) \<le> y \<Longrightarrow> x - x div 1460 \<le> y - y div 1460"
  by linarith

lemma mono_q: "(p::int) \<le> q \<Longrightarrow> p - p div 4 \<le> q - q div 4"
  by linarith

lemma check_years:
  "list_all (\<lambda>j. yoe_of (year_start j) = j \<and> yoe_of (year_start (j + 1) - 1) = j \<and>
      year_start (j + 1) - year_start j \<le> 366) [0..399]"
  by code_simp

lemma mono_f:
  assumes "(x::int) \<le> y"
  shows "x - x div 1460 + x div 36524 - x div 146096 \<le> y - y div 1460 + y div 36524 - y div 146096"
proof -
  have a: "x - x div 1460 \<le> y - y div 1460" using assms by (rule mono_a)
  have q: "x div 36524 \<le> y div 36524" using assms by (simp add: zdiv_mono1)
  have "x div 146096 = x div 36524 div 4" "y div 146096 = y div 36524 div 4"
    by (simp_all add: div_mult2_eq [symmetric])
  with mono_q [OF q] a show ?thesis by linarith
qed

lemma yoe_mono: "x \<le> y \<Longrightarrow> yoe_of x \<le> yoe_of y"
  unfolding yoe_of_def by (intro zdiv_mono1 mono_f) simp_all

lemma year_start_0: "year_start 0 = 0" and year_start_400: "year_start 400 = 146097"
  by (simp_all add: year_start_def)

lemma find_year:
  "0 \<le> doe \<Longrightarrow> doe < year_start (int n) \<Longrightarrow>
     \<exists>j. 0 \<le> j \<and> j < int n \<and> year_start j \<le> doe \<and> doe < year_start (j + 1)"
proof (induction n)
  case 0
  then show ?case by (simp add: year_start_0)
next
  case (Suc n)
  show ?case
  proof (cases "doe < year_start (int n)")
    case True
    from Suc.IH [OF Suc.prems(1) True] obtain j where
      "0 \<le> j" "j < int n" "year_start j \<le> doe" "doe < year_start (j + 1)" by blast
    then show ?thesis by (intro exI [of _ j]) simp
  next
    case False
    with Suc.prems show ?thesis
      by (intro exI [of _ "int n"]) (simp add: add.commute)
  qed
qed

lemma year_checked:
  assumes "0 \<le> j" "j < 400"
  shows "yoe_of (year_start j) = j" "yoe_of (year_start (j + 1) - 1) = j"
    "year_start (j + 1) - year_start j \<le> 366"
proof -
  have "j \<in> set [0..399]" using assms by simp
  with check_years show "yoe_of (year_start j) = j" "yoe_of (year_start (j + 1) - 1) = j"
    "year_start (j + 1) - year_start j \<le> 366"
    unfolding list_all_iff by blast+
qed

lemma yoe_of_year:
  assumes "0 \<le> doe" "doe \<le> 146096"
  shows "0 \<le> yoe_of doe \<and> yoe_of doe \<le> 399 \<and>
    year_start (yoe_of doe) \<le> doe \<and> doe - year_start (yoe_of doe) \<le> 365"
proof -
  have "doe < year_start (int 400)" using assms by (simp add: year_start_400)
  from find_year [OF assms(1) this] obtain j where
    j: "0 \<le> j" "j < 400" "year_start j \<le> doe" "doe < year_start (j + 1)" by auto
  have "yoe_of (year_start j) \<le> yoe_of doe" using j(3) by (rule yoe_mono)
  moreover have "yoe_of doe \<le> yoe_of (year_start (j + 1) - 1)"
    using j(4) by (intro yoe_mono) simp
  ultimately have "yoe_of doe = j" using year_checked(1,2) [OF j(1,2)] by simp
  with j year_checked(3) [OF j(1,2)] show ?thesis by simp
qed


lemma civil_from_days_parts:
  fixes z :: int
  defines "doe \<equiv> (z + 719468) mod 146097"
  defines "yoe \<equiv> yoe_of doe"
  defines "doy \<equiv> doe - (365 * yoe + yoe div 4 - yoe div 100)"
  defines "mp \<equiv> (5 * doy + 2) div 153"
  shows "0 \<le> yoe \<and> yoe \<le> 399 \<and> 0 \<le> doy \<and> doy \<le> 365 \<and> 0 \<le> mp \<and> mp \<le> 11 \<and>
    1 \<le> doy - (153 * mp + 2) div 5 + 1 \<and> doy - (153 * mp + 2) div 5 + 1 \<le> 31"
proof -
  have d: "0 \<le> doe" "doe \<le> 146096" by (simp_all add: doe_def)
  from yoe_of_year [OF d] have y: "0 \<le> yoe" "yoe \<le> 399"
    and s: "year_start yoe \<le> doe" "doe - year_start yoe \<le> 365"
    by (simp_all add: yoe_def)
  have "yoe div 400 = 0" using y by simp
  then have "year_start yoe = 365 * yoe + yoe div 4 - yoe div 100"
    by (simp add: year_start_def)
  with s have doy: "0 \<le> doy" "doy \<le> 365" by (simp_all add: doy_def)
  then have mp: "0 \<le> mp" "mp \<le> 11" unfolding mp_def by linarith+
  have "1 \<le> doy - (153 * mp + 2) div 5 + 1" "doy - (153 * mp + 2) div 5 + 1 \<le> 31"
    unfolding mp_def by linarith+
  with y doy mp show ?thesis by simp
qed

lemma civil_from_days_cases:
  obtains era doe yoe doy mp :: int where
    "z + 719468 = era * 146097 + doe"
    "0 \<le> yoe" "yoe \<le> 399" "0 \<le> doy" "doy \<le> 365" "0 \<le> mp" "mp \<le> 11"
    "doe = doy + (365 * yoe + yoe div 4 - yoe div 100)"
    "1 \<le> doy - (153 * mp + 2) div 5 + 1" "doy - (153 * mp + 2) div 5 + 1 \<le> 31"
    "civil_from_days z =
       (if (if mp < 10 then mp + 3 else mp - 9) \<le> 2 then yoe + era * 400 + 1 else yoe + era * 400,
        if mp < 10 then mp + 3 else mp - 9,
        doy - (153 * mp + 2) div 5 + 1)"
proof -
  define era where "era = (z + 719468) div 146097"
  define doe where "doe = (z + 719468) mod 146097"
  define yoe where "yoe = yoe_of doe"
  define doy where "doy = doe - (365 * yoe + yoe div 4 - yoe div 100)"
  define mp where "mp = (5 * doy + 2) div 153"
  have p: "0 \<le> yoe \<and> yoe \<le> 399 \<and> 0 \<le> doy \<and> doy \<le> 365 \<and> 0 \<le> mp \<and> mp \<le> 11 \<and>
    1 \<le> doy - (153 * mp + 2) div 5 + 1 \<and> doy - (153 * mp + 2) div 5 + 1 \<le> 31"
    unfolding mp_def doy_def yoe_def doe_def by (rule civil_from_days_parts)
  have z: "z + 719468 = era * 146097 + doe"
    unfolding era_def doe_def by simp
  have c: "civil_from_days z =
       (if (if mp < 10 then mp + 3 else mp - 9) \<le> 2 then yoe + era * 400 + 1 else yoe + era * 400,
        if mp < 10 then mp + 3 else mp - 9,
        doy - (153 * mp + 2) div 5 + 1)"
    by (simp only: civil_from_days_def Let_def mp_def doy_def yoe_def yoe_of_def doe_def era_def)
  have d: "doe = doy + (365 * yoe + yoe div 4 - yoe div 100)" by (simp add: doy_def)
  from that [of era doe yoe doy mp] z p d c show thesis by blast
qed

lemma civil_from_days_range:
  assumes "civil_from_days z = (y, m, d)"
  shows "1 \<le> m \<and> m \<le> 12 \<and> 1 \<le> d \<and> d \<le> 31"
proof -
  obtain era doe yoe doy mp :: int where
    mp: "0 \<le> mp" "mp \<le> 11"
    and d: "1 \<le> doy - (153 * mp + 2) div 5 + 1" "doy - (153 * mp + 2) div 5 + 1 \<le> 31"
    and c: "civil_from_days z =
       (if (if mp < 10 then mp + 3 else mp - 9) \<le> 2 then yoe + era * 400 + 1 else yoe + era * 400,
        if mp < 10 then mp + 3 else mp - 9,
        doy - (153 * mp + 2) div 5 + 1)"
    by (rule civil_from_days_cases [of z])
  from c assms have "m = (if mp < 10 then mp + 3 else mp - 9)"
    and "d = doy - (153 * mp + 2) div 5 + 1" by simp_all
  with mp d show ?thesis by auto
qed

lemma days_from_civil_inverse:
  assumes "civil_from_days z = (y, m, d)"
  shows "days_from_civil y m d = z"
proof -
  obtain era doe yoe doy mp :: int where
    z: "z + 719468 = era * 146097 + doe"
    and yoe: "0 \<le> yoe" "yoe \<le> 399"
    and mp: "0 \<le> mp" "mp \<le> 11"
    and doe: "doe = doy + (365 * yoe + yoe div 4 - yoe div 100)"
    and c: "civil_from_days z =
       (if (if mp < 10 then mp + 3 else mp - 9) \<le> 2 then yoe + era * 400 + 1 else yoe + era * 400,
        if mp < 10 then mp + 3 else mp - 9,
        doy - (153 * mp + 2) div 5 + 1)"
    by (rule civil_from_days_cases [of z])
  from c assms have m: "m = (if mp < 10 then mp + 3 else mp - 9)"
    and d: "d = doy - (153 * mp + 2) div 5 + 1"
    and y: "y = (if m \<le> 2 then yoe + era * 400 + 1 else yoe + era * 400)"
    by simp_all
  have y': "(if m \<le> 2 then y - 1 else y) = yoe + era * 400"
    by (simp add: y)
  have mp': "(if m > 2 then m - 3 else m + 9) = mp"
    using mp by (auto simp: m)
  have e: "(yoe + era * 400) div 400 = era" "(yoe + era * 400) mod 400 = yoe"
    using yoe by simp_all
  have "days_from_civil y m d =
      era * 146097 + (yoe * 365 + yoe div 4 - yoe div 100 + ((153 * mp + 2) div 5 + d - 1)) - 719468"
    unfolding days_from_civil_def Let_def y' mp' e ..
  also have "\<dots> = era * 146097 + doe - 719468"
    by (simp add: d doe)
  also have "\<dots> = z" using z by simp
  finally show ?thesis .
qed

lemma days_from_civil_day: "days_from_civil y m d = days_from_civil y m 1 + d - 1"
  by (simp add: days_from_civil_def Let_def)

lemma civil_from_days_inj: "civil_from_days a = civil_from_days b \<Longrightarrow> a = b"
  by (metis days_from_civil_inverse prod_cases3)

section \<open>Properties of the daily trend and the monthly spend\<close>

lemma MakeDay_civil:
  assumes "civil_from_days n = (y, m, d)"
  shows "MakeDay y (m - 1) dt = n - d + dt"
proof -
  from civil_from_days_range [OF assms] have m: "1 \<le> m" "m \<le> 12" by simp_all
  then have "(m - 1) div 12 = 0" "(m - 1) mod 12 + 1 = m" by simp_all
  then have "MakeDay y (m - 1) dt = days_from_civil y m 1 + dt - 1"
    by (simp add: MakeDay_def)
  also have "\<dots> = days_from_civil y m d - d + dt"
    by (simp add: days_from_civil_day [of y m d])
  also have "\<dots> = n - d + dt"
    by (simp add: days_from_civil_inverse [OF assms])
  finally show ?thesis .
qed

text \<open>The functions of a zone of constant offset are those of the number \<open>tz\<close>.\<close>

lemma fixed_zone_functions:
  "LocalTime_in (fixed_zone tz) t = LocalTime tz t"
  "UTC_in (fixed_zone tz) t = UTC tz t"
  "getDate_in (fixed_zone tz) t = getDate tz t"
  by (simp_all add: LocalTime_in_def UTC_in_def getDate_in_def fixed_zone_def LocalTime_def
      UTC_def getDate_def)

text \<open>In a zone of constant offset, \<open>setDate\<close> of a day \<open>k\<close> earlier goes back \<open>k\<close> times 24 hours.\<close>

lemma setDate_back:
  "setDate (fixed_zone tz) t (getDate_in (fixed_zone tz) t - k) = t - k * msPerDay"
proof -
  define lt where "lt = LocalTime_in (fixed_zone tz) t"
  obtain y m d where c: "civil_from_days (Day lt) = (y, m, d)"
    by (rule prod_cases3)
  have lt: "lt = t - tz * msPerMinute" by (simp add: lt_def LocalTime_in_def fixed_zone_def)
  have "(Day lt - d + (d - k)) * msPerDay + TimeWithinDay lt = lt - k * msPerDay"
    by (simp add: Day_def TimeWithinDay_def algebra_simps)
  then have "setDate (fixed_zone tz) t (d - k) = UTC_in (fixed_zone tz) (lt - k * msPerDay)"
    by (simp add: setDate_def Let_def lt_def [symmetric] c MakeDay_civil [OF c])
  also have "\<dots> = t - k * msPerDay" by (simp add: UTC_in_def fixed_zone_def lt)
  finally show ?thesis by (simp add: getDate_in_def lt_def [symmetric] c)
qed

lemma Day_back: "Day (t - k * msPerDay) = Day t - k"
proof -
  have "msPerDay \<noteq> 0" by (simp add: msPerDay_def)
  then have "(t + msPerDay * (- k)) div msPerDay = (- k) + t div msPerDay"
    by (rule div_mult_self2)
  moreover have "t + msPerDay * (- k) = t - k * msPerDay" by (simp add: algebra_simps)
  ultimately have "(t - k * msPerDay) div msPerDay = (- k) + t div msPerDay" by (simp only:)
  then show ?thesis unfolding Day_def by linarith
qed

lemma trend_day:
  "toISODate (setDate (fixed_zone tz) now (getDate_in (fixed_zone tz) now - (6 - int i))) =
     iso_date (civil_from_days (Day now - 6 + int i))"
proof -
  have "Day now - (6 - int i) = Day now - 6 + int i" by linarith
  then have "Day (now - (6 - int i) * msPerDay) = Day now - 6 + int i"
    unfolding Day_back by (simp only:)
  then show ?thesis unfolding toISODate_def setDate_back by (simp only:)
qed

lemma last7Days_days:
  "last7Days tz now = map (\<lambda>i. iso_date (civil_from_days (Day now - 6 + int i))) [0..<7]"
  unfolding last7Days_def last7Days_in_def trend_day ..

lemma nat_of_digits_snoc: "nat_of_digits (s @ [c]) = 10 * nat_of_digits s + digit_val c"
  by (simp add: nat_of_digits_def)

lemma digit_val_digit_char: "d < 10 \<Longrightarrow> digit_val (digit_char d) = d"
proof -
  assume "d < 10"
  then have "d \<in> {0, 1, 2, 3, 4, 5, 6, 7, 8, 9}" by auto
  then show ?thesis by (auto simp: digit_val_def digit_char_def)
qed

lemma nat_of_digits_string_of_nat: "nat_of_digits (string_of_nat n) = n"
proof (induction n rule: string_of_nat.induct)
  case (1 n)
  show ?case
  proof (cases "n < 10")
    case True
    then show ?thesis
      by (subst string_of_nat.simps) (simp add: nat_of_digits_def digit_val_digit_char)
  next
    case False
    then have "nat_of_digits (string_of_nat (n div 10)) = n div 10" by (rule "1.IH")
    then show ?thesis using False
      by (subst string_of_nat.simps) (simp add: nat_of_digits_snoc digit_val_digit_char)
  qed
qed

lemma nat_of_digits_zeros: "nat_of_digits (replicate j CHR ''0'' @ s) = nat_of_digits s"
  by (induction j) (simp_all add: nat_of_digits_def digit_val_def)

lemma nat_of_digits_padStart:
  "nat_of_digits (padStart k CHR ''0'' (string_of_nat n)) = n"
  by (simp add: padStart_def nat_of_digits_zeros nat_of_digits_string_of_nat)

lemma length_string_of_nat: "0 < k \<Longrightarrow> n < 10 ^ k \<Longrightarrow> length (string_of_nat n) \<le> k"
proof (induction n arbitrary: k rule: string_of_nat.induct)
  case (1 n)
  show ?case
  proof (cases "n < 10")
    case True
    then show ?thesis using "1.prems" by (subst string_of_nat.simps) simp
  next
    case False
    with "1.prems" obtain j where k: "k = Suc j" by (cases k) auto
    have "0 < j" using False "1.prems" k by (cases j) auto
    moreover have "n div 10 < 10 ^ j" using "1.prems" k by (simp add: less_mult_imp_div_less)
    ultimately have "length (string_of_nat (n div 10)) \<le> j" using False by (intro "1.IH")
    then show ?thesis using False k by (subst string_of_nat.simps) simp
  qed
qed

lemma length_padStart: "length (padStart k c s) = max k (length s)"
  by (simp add: padStart_def)

lemma length_pad2: "n < 100 \<Longrightarrow> length (padStart 2 CHR ''0'' (string_of_nat n)) = 2"
  using length_string_of_nat [of 2 n] by (simp add: length_padStart)

lemma length_iso_year:
  "length (iso_year y) = (if 0 \<le> y \<and> y \<le> 9999 then 4 else Suc (max 6 (length (string_of_nat (nat \<bar>y\<bar>)))))"
proof (cases "0 \<le> y \<and> y \<le> 9999")
  case True
  then have "nat y < 10000" by linarith
  then have "nat y < 10 ^ 4" by simp
  then have "length (string_of_nat (nat y)) \<le> 4" by (intro length_string_of_nat) simp_all
  then show ?thesis using True by (simp add: iso_year_def length_padStart)
next
  case False
  then show ?thesis by (auto simp: iso_year_def length_padStart)
qed

lemma iso_year_inj: "iso_year a = iso_year b \<Longrightarrow> a = b"
proof -
  assume eq: "iso_year a = iso_year b"
  then have len: "length (iso_year a) = length (iso_year b)" by simp
  consider (both) "0 \<le> a \<and> a \<le> 9999" "0 \<le> b \<and> b \<le> 9999"
    | (neither) "\<not> (0 \<le> a \<and> a \<le> 9999)" "\<not> (0 \<le> b \<and> b \<le> 9999)"
    | (mixed) "(0 \<le> a \<and> a \<le> 9999) \<noteq> (0 \<le> b \<and> b \<le> 9999)"
    by blast
  then show ?thesis
  proof cases
    case both
    then have "nat_of_digits (iso_year a) = nat a" "nat_of_digits (iso_year b) = nat b"
      by (simp_all add: iso_year_def nat_of_digits_padStart)
    with eq have "nat a = nat b" by simp
    with both show ?thesis by linarith
  next
    case neither
    let ?s = "\<lambda>y::int. if y < 0 then CHR ''-'' else CHR ''+''"
    let ?p = "\<lambda>y::int. padStart 6 CHR ''0'' (string_of_nat (nat \<bar>y\<bar>))"
    have "iso_year a = ?s a # ?p a" "iso_year b = ?s b # ?p b"
      unfolding iso_year_def using neither by (simp_all only: if_False)
    with eq have "?s a # ?p a = ?s b # ?p b" by (simp only:)
    then have s: "?s a = ?s b" and p: "?p a = ?p b" by simp_all
    from p have "nat_of_digits (?p a) = nat_of_digits (?p b)" by simp
    then have "\<bar>a\<bar> = \<bar>b\<bar>" by (simp add: nat_of_digits_padStart)
    moreover from s have "a < 0 \<longleftrightarrow> b < 0" by (auto split: if_splits)
    ultimately show ?thesis by linarith
  next
    case mixed
    with len show ?thesis by (auto simp: length_iso_year split: if_splits)
  qed
qed

lemma iso_date_inj:
  assumes "iso_date (y1, m1, d1) = iso_date (y2, m2, d2)"
    and "1 \<le> m1" "m1 \<le> 12" "1 \<le> d1" "d1 \<le> 31"
    and "1 \<le> m2" "m2 \<le> 12" "1 \<le> d2" "d2 \<le> 31"
  shows "(y1, m1, d1) = (y2, m2, d2)"
proof -
  let ?M = "\<lambda>m::int. padStart 2 CHR ''0'' (string_of_nat (nat m))"
  have lm: "length (?M m1) = 2" "length (?M m2) = 2" "length (?M d1) = 2" "length (?M d2) = 2"
    using assms(2-) by (simp_all add: length_pad2)
  from assms(1) have eq: "iso_year y1 @ (''-'' @ ?M m1 @ ''-'' @ ?M d1) =
      iso_year y2 @ (''-'' @ ?M m2 @ ''-'' @ ?M d2)"
    by (simp add: iso_date_def)
  have "length (''-'' @ ?M m1 @ ''-'' @ ?M d1) = length (''-'' @ ?M m2 @ ''-'' @ ?M d2)"
    using lm by simp
  with eq have "iso_year y1 = iso_year y2 \<and>
      ''-'' @ ?M m1 @ ''-'' @ ?M d1 = ''-'' @ ?M m2 @ ''-'' @ ?M d2"
    by (subst (asm) append_eq_append_conv) simp_all
  then have y: "iso_year y1 = iso_year y2"
    and r: "''-'' @ ?M m1 @ ''-'' @ ?M d1 = ''-'' @ ?M m2 @ ''-'' @ ?M d2"
    by simp_all
  from r have "?M m1 @ (''-'' @ ?M d1) = ?M m2 @ (''-'' @ ?M d2)" by simp
  then have m: "?M m1 = ?M m2" and d: "?M d1 = ?M d2"
    using lm by (simp_all add: append_eq_append_conv)
  from m have "nat_of_digits (?M m1) = nat_of_digits (?M m2)" by simp
  then have "m1 = m2" using assms(2,6) by (simp add: nat_of_digits_padStart)
  moreover from d have "nat_of_digits (?M d1) = nat_of_digits (?M d2)" by simp
  then have "d1 = d2" using assms(4,8) by (simp add: nat_of_digits_padStart)
  moreover from y have "y1 = y2" by (rule iso_year_inj)
  ultimately show ?thesis by simp
qed

lemma utc_day_string_inj: "utc_day_string a = utc_day_string b \<Longrightarrow> a = b"
proof -
  assume eq: "utc_day_string a = utc_day_string b"
  obtain y1 m1 d1 where a: "civil_from_days a = (y1, m1, d1)" by (rule prod_cases3)
  obtain y2 m2 d2 where b: "civil_from_days b = (y2, m2, d2)" by (rule prod_cases3)
  from eq have "iso_date (y1, m1, d1) = iso_date (y2, m2, d2)"
    by (simp add: utc_day_string_def a b)
  then have "(y1, m1, d1) = (y2, m2, d2)"
    using civil_from_days_range [OF a] civil_from_days_range [OF b]
    by (intro iso_date_inj) simp_all
  then have "civil_from_days a = civil_from_days b" by (simp add: a b)
  then show ?thesis by (rule civil_from_days_inj)
qed

lemma distinct_days: "distinct (map (\<lambda>i. utc_day_string (n + int i)) [0..<k])"
  by (auto simp: distinct_map inj_on_def dest: utc_day_string_inj)

text \<open>
  The daily trend in a zone of constant offset: 7 entries; entry \<open>i\<close> (0 to 6)
  carries the date string of the UTC calendar day \<open>Day now - 6 + i\<close>, that is the
  six days before the UTC day of "now" and that day, in chronological order,
  seven different dates. Its amount is the sum, in the arithmetic of doubles, of
  the amounts of the expenses whose date string equals that string, and 0 when no
  expense has that date.
\<close>

lemma dailyTrend_constant_offset:
  "length (dailyTrend tz now expenses) = 7 \<and>
   map td_date (dailyTrend tz now expenses) =
     map (\<lambda>i. utc_day_string (Day now - 6 + int i)) [0..<7] \<and>
   distinct (map td_date (dailyTrend tz now expenses)) \<and>
   (\<forall>i < 7. td_amount (dailyTrend tz now expenses ! i) =
      totalExpenses (filter (\<lambda>e. date e = utc_day_string (Day now - 6 + int i)) expenses)) \<and>
   (\<forall>i < 7. (\<forall>e \<in> set expenses. date e \<noteq> utc_day_string (Day now - 6 + int i)) \<longrightarrow>
      td_amount (dailyTrend tz now expenses ! i) = 0)"
proof -
  let ?day = "\<lambda>i. utc_day_string (Day now - 6 + int i)"
  let ?entry = "\<lambda>i. \<lparr>td_date = ?day i,
      td_amount = sum_amounts (filter (\<lambda>e. date e = ?day i) expenses)\<rparr>"
  have t: "dailyTrend tz now expenses = map ?entry [0..<7]"
    using last7Days_days [of tz now]
    by (simp add: dailyTrend_def dailyTrend_in_def last7Days_def utc_day_string_def comp_def
        del: upt_Suc)
  have len: "length (dailyTrend tz now expenses) = 7" by (simp add: t del: upt_Suc)
  have dates: "map td_date (dailyTrend tz now expenses) = map ?day [0..<7]"
    by (simp add: t comp_def del: upt_Suc)
  have nth: "dailyTrend tz now expenses ! i = ?entry i" if "i < 7" for i
    using that by (simp add: t del: upt_Suc)
  have amounts: "\<forall>i < 7. td_amount (dailyTrend tz now expenses ! i) =
      totalExpenses (filter (\<lambda>e. date e = ?day i) expenses)"
    by (simp add: nth totalExpenses_def)
  have zero: "\<forall>i < 7. (\<forall>e \<in> set expenses. date e \<noteq> ?day i) \<longrightarrow>
      td_amount (dailyTrend tz now expenses ! i) = 0"
  proof (intro allI impI)
    fix i :: nat
    assume i: "i < 7" and none: "\<forall>e \<in> set expenses. date e \<noteq> ?day i"
    from none have "filter (\<lambda>e. date e = ?day i) expenses = []"
      by (simp add: filter_empty_conv)
    then show "td_amount (dailyTrend tz now expenses ! i) = 0"
      by (simp add: nth [OF i] sum_amounts_def)
  qed
  have dist: "distinct (map td_date (dailyTrend tz now expenses))"
    unfolding dates by (rule distinct_days)
  from len dates dist amounts zero show ?thesis by (intro conjI)
qed

lemma string_of_nat_numeral [simp]:
  "string_of_nat (numeral k) =
     (if (numeral k :: nat) < 10 then [digit_char (numeral k)]
      else string_of_nat (numeral k div 10) @ [digit_char (numeral k mod 10)])"
  by (rule string_of_nat.simps)

lemma string_of_nat_small [simp]:
  "string_of_nat 0 = ''0''" "string_of_nat 1 = ''1''" "string_of_nat (Suc 0) = ''1''"
  by (simp_all add: string_of_nat.simps digit_char_def)

lemma upt_7: "[0..<7] = [0, 1, 2, 3, 4, 5, 6]"
  by code_simp

lemma example_day: "Day example_now = 19784"
  by (simp add: Day_def msPerDay_def example_now_def)

lemma example_civil:
  "civil_from_days 19778 = (2024, 2, 25)" "civil_from_days 19779 = (2024, 2, 26)"
  "civil_from_days 19780 = (2024, 2, 27)" "civil_from_days 19781 = (2024, 2, 28)"
  "civil_from_days 19782 = (2024, 2, 29)" "civil_from_days 19783 = (2024, 3, 1)"
  "civil_from_days 19784 = (2024, 3, 2)"
  unfolding civil_from_days_def Let_def by simp_all

lemma example_days:
  "map (\<lambda>i. utc_day_string (Day example_now - 6 + int i)) [0..<7] =
     [''2024-02-25'', ''2024-02-26'', ''2024-02-27'', ''2024-02-28'', ''2024-02-29'',
      ''2024-03-01'', ''2024-03-02'']"
  by (simp add: upt_7 example_day utc_day_string_def example_civil iso_date_def iso_year_def
      padStart_def digit_char_def)

lemma example_last7:
  "last7Days 300 example_now =
     [''2024-02-25'', ''2024-02-26'', ''2024-02-27'', ''2024-02-28'', ''2024-02-29'',
      ''2024-03-01'', ''2024-03-02'']"
  using example_days by (simp only: last7Days_days utc_day_string_def)

lemma example_trend:
  "dailyTrend 300 example_now example_expenses =
     [\<lparr>td_date = ''2024-02-25'', td_amount = 0\<rparr>,
      \<lparr>td_date = ''2024-02-26'', td_amount = 0\<rparr>,
      \<lparr>td_date = ''2024-02-27'', td_amount = 7\<rparr>,
      \<lparr>td_date = ''2024-02-28'', td_amount = 0\<rparr>,
      \<lparr>td_date = ''2024-02-29'', td_amount = 0\<rparr>,
      \<lparr>td_date = ''2024-03-01'', td_amount = 15\<rparr>,
      \<lparr>td_date = ''2024-03-02'', td_amount = 20\<rparr>]"
  by (simp add: dailyTrend_def dailyTrend_in_def example_last7 [unfolded last7Days_def]
      sum_amounts_def example_defs)

lemma example_trend_dates:
  "map td_date (dailyTrend 300 example_now example_expenses) =
     [''2024-02-25'', ''2024-02-26'', ''2024-02-27'', ''2024-02-28'', ''2024-02-29'',
      ''2024-03-01'', ''2024-03-02'']"
  "map td_amount (dailyTrend 300 example_now example_expenses) = [0, 0, 7, 0, 0, 15, 20]"
  by (simp_all add: example_trend)

subsection \<open>The daily trend across a change of offset\<close>

lemma after_change_local:
  "LocalTime_in new_york after_change_now = 1710271800000"
  "Day 1710271800000 = 19794"
  "TimeWithinDay 1710271800000 = 70200000"
  by (simp_all add: LocalTime_in_def new_york_def after_change_now_def msPerMinute_def Day_def
      TimeWithinDay_def msPerDay_def)

lemma after_change_civil:
  "civil_from_days 19789 = (2024, 3, 7)" "civil_from_days 19790 = (2024, 3, 8)"
  "civil_from_days 19791 = (2024, 3, 9)" "civil_from_days 19792 = (2024, 3, 10)"
  "civil_from_days 19793 = (2024, 3, 11)" "civil_from_days 19794 = (2024, 3, 12)"
  unfolding civil_from_days_def Let_def by simp_all

lemma after_change_date: "getDate_in new_york after_change_now = 12"
  by (simp add: getDate_in_def after_change_local after_change_civil)

lemma after_change_setDate:
  "setDate new_york after_change_now dt =
     UTC_in new_york ((19782 + dt) * msPerDay + 70200000)"
  by (simp add: setDate_def Let_def after_change_local after_change_civil MakeDay_def
      days_from_civil_def)

lemma after_change_days:
  "Day (setDate new_york after_change_now 6) = 19789"
  "Day (setDate new_york after_change_now 7) = 19790"
  "Day (setDate new_york after_change_now 8) = 19791"
  "Day (setDate new_york after_change_now 9) = 19792"
  "Day (setDate new_york after_change_now 10) = 19792"
  "Day (setDate new_york after_change_now 11) = 19793"
  "Day (setDate new_york after_change_now 12) = 19794"
  unfolding after_change_setDate
  by (simp_all add: UTC_in_def new_york_def msPerDay_def msPerMinute_def Day_def)

lemma after_change_last7:
  "last7Days_in new_york after_change_now =
     [''2024-03-07'', ''2024-03-08'', ''2024-03-09'', ''2024-03-10'', ''2024-03-10'',
      ''2024-03-11'', ''2024-03-12'']"
  by (simp add: last7Days_in_def upt_7 after_change_date toISODate_def after_change_days
      after_change_civil iso_date_def iso_year_def padStart_def digit_char_def)

lemma east_local:
  "Day east_now = 19784"
  "civil_from_days (Day (LocalTime (- 600) east_now)) = (2024, 3, 3)"
  unfolding civil_from_days_def Let_def Day_def LocalTime_def east_now_def msPerDay_def
    msPerMinute_def
  by simp_all

lemma east_dates:
  "map td_date (dailyTrend (- 600) east_now expenses) =
     [''2024-02-25'', ''2024-02-26'', ''2024-02-27'', ''2024-02-28'', ''2024-02-29'',
      ''2024-03-01'', ''2024-03-02'']"
  using dailyTrend_constant_offset [of "- 600" east_now expenses] example_days
  by (simp only: east_local example_day)

text \<open>
  Claim C3, at two failing inputs. In New York on 12 March 2024 at 19:30 local
  time, two days after the clocks went forward, the daily trend has 7 entries, but
  their dates are 7 to 12 March with 10 March twice: the 6th, the first of the
  seven local days that end on the 12th, has no entry. \<open>setDate\<close> keeps the local
  time 19:30, which is 00:30 UTC of the next day before the change and 23:30 UTC
  of the same day after it, and \<open>toISOString\<close> gives the UTC date. An expense of 10
  March is charted twice, one of 6 March not at all. And in a zone ten hours east
  of Greenwich, whose offset never changes, on 3 March 2024 at 06:00 local time,
  the seven dates are 25 February to 2 March: the day of "now", 3 March, has no
  entry, because the UTC date is still 2 March.
\<close>

theorem dailyTrend_calendar_days_fail:
  "length (dailyTrend_in new_york after_change_now expenses) = 7 \<and>
   map td_date (dailyTrend_in new_york after_change_now expenses) =
     [''2024-03-07'', ''2024-03-08'', ''2024-03-09'', ''2024-03-10'', ''2024-03-10'',
      ''2024-03-11'', ''2024-03-12''] \<and>
   \<not> distinct (map td_date (dailyTrend_in new_york after_change_now expenses)) \<and>
   ''2024-03-06'' \<notin> set (map td_date (dailyTrend_in new_york after_change_now expenses)) \<and>
   civil_from_days (Day (LocalTime_in new_york after_change_now)) = (2024, 3, 12) \<and>
   td_amount (dailyTrend_in new_york after_change_now expenses ! 3) =
     td_amount (dailyTrend_in new_york after_change_now expenses ! 4) \<and>
   civil_from_days (Day (LocalTime (- 600) east_now)) = (2024, 3, 3) \<and>
   map td_date (dailyTrend (- 600) east_now expenses) =
     [''2024-02-25'', ''2024-02-26'', ''2024-02-27'', ''2024-02-28'', ''2024-02-29'',
      ''2024-03-01'', ''2024-03-02''] \<and>
   ''2024-03-03'' \<notin> set (map td_date (dailyTrend (- 600) east_now expenses))"
proof -
  have d: "map td_date (dailyTrend_in new_york after_change_now expenses) =
     [''2024-03-07'', ''2024-03-08'', ''2024-03-09'', ''2024-03-10'', ''2024-03-10'',
      ''2024-03-11'', ''2024-03-12'']"
    by (simp add: dailyTrend_in_def after_change_last7)
  have l: "length (dailyTrend_in new_york after_change_now expenses) = 7"
    by (simp add: dailyTrend_in_def after_change_last7)
  have c: "civil_from_days (Day (LocalTime_in new_york after_change_now)) = (2024, 3, 12)"
    by (simp add: after_change_local after_change_civil)
  have a: "td_amount (dailyTrend_in new_york after_change_now expenses ! 3) =
     td_amount (dailyTrend_in new_york after_change_now expenses ! 4)"
    by (simp add: dailyTrend_in_def after_change_last7)
  show ?thesis unfolding d east_dates using l c a east_local(2) by simp
qed

lemma parse_march_first: "Date_parse ''2024-03-01'' = Some 1709251200000"
  by (simp add: Date_parse_def is_digit_def nat_of_digits_def digit_val_def days_in_month_def
      is_leap_def days_from_civil_def msPerDay_def Let_def)

lemma mid_march_civil:
  "civil_from_days (Day (LocalTime 300 mid_march_now)) = (2024, 3, 15)"
  "civil_from_days (Day (LocalTime 0 mid_march_now)) = (2024, 3, 15)"
  unfolding civil_from_days_def Let_def Day_def LocalTime_def mid_march_now_def msPerDay_def
    msPerMinute_def
  by simp_all

lemma mid_march_first:
  "firstDayOfMonth 300 mid_march_now = 1709269200000"
  "firstDayOfMonth 0 mid_march_now = 1709251200000"
  by (simp_all add: firstDayOfMonth_def getFullYear_def getMonth_def mid_march_civil
      new_Date_ymd_def MakeDay_def days_from_civil_def UTC_def msPerDay_def msPerMinute_def Let_def)

lemma mid_march_key: "month_key 300 mid_march_now = ''2024-03-01''"
  by (simp add: month_key_def getFullYear_def getMonth_def mid_march_civil string_of_int_def
      padStart_def digit_char_def)

lemma Date_parse_midnight: "Date_parse s = Some t \<Longrightarrow> t = Day t * msPerDay"
  by (auto simp: Date_parse_def Day_def msPerDay_def Let_def split: if_splits)

text \<open>
  The dashboard's filter in general: the expense's midnight UTC is compared with the
  local midnight of the first of the month. Up to a day east of Greenwich
  (\<open>tz \<le> 0\<close>) that is the comparison of the calendar days; up to a day west
  (\<open>tz > 0\<close>) the first day of the month itself is left out.
\<close>

lemma dashboard_month_filter:
  assumes "Date_parse d = Some t" and "- 1440 < tz" and "tz < 1440"
  shows "date_ge (Date_parse d) (new_Date_ymd tz y m 1) \<longleftrightarrow>
    Day (LocalTime tz (new_Date_ymd tz y m 1)) + (if 0 < tz then 1 else 0) \<le> Day t"
proof -
  define F where "F = MakeDay (if 0 \<le> y \<and> y \<le> 99 then 1900 + y else y) m 1"
  have f: "new_Date_ymd tz y m 1 = F * msPerDay + tz * msPerMinute"
    by (simp add: new_Date_ymd_def UTC_def F_def Let_def)
  have l: "Day (LocalTime tz (new_Date_ymd tz y m 1)) = F"
    by (simp add: f LocalTime_def Day_def msPerDay_def)
  from assms(1) have t: "t = Day t * msPerDay" by (rule Date_parse_midnight)
  have "date_ge (Date_parse d) (new_Date_ymd tz y m 1) \<longleftrightarrow>
      F * msPerDay + tz * msPerMinute \<le> Day t * msPerDay"
    using t by (simp add: assms(1) date_ge_def f)
  also have "\<dots> \<longleftrightarrow> F + (if 0 < tz then 1 else 0) \<le> Day t"
    using assms(2,3) unfolding msPerDay_def msPerMinute_def by (auto split: if_splits)
  finally show ?thesis by (simp only: l)
qed

text \<open>
  Claim C4, at a failing input. In a time zone west of Greenwich (\<open>tz = 300\<close>, five
  hours), on 15 March 2024 at noon local time, an expense of 10 dated 2024-03-01 is
  not counted by the dashboard's monthly spend: \<open>new Date("2024-03-01")\<close> is midnight
  UTC, five hours before the local midnight that \<open>new Date(year, month, 1)\<close> gives.
  The budget card's fetchMonthlySpending, which compares calendar dates, counts it,
  and so does the dashboard at \<open>tz = 0\<close>.
\<close>

theorem monthlyExpenses_drops_first_day_west_of_utc:
  "monthlyExpenses 300 mid_march_now [march_first_expense] = 0 \<and>
   fetchMonthlySpending 300 mid_march_now [march_first_expense] = 10 \<and>
   monthlyExpenses 0 mid_march_now [march_first_expense] = 10"
  by (simp add: monthlyExpenses_def fetchMonthlySpending_def mid_march_first mid_march_key
      march_first_expense_def mk_expense_def parse_march_first date_ge_def date_gte_def
      sum_amounts_def)

section \<open>Properties of the budget handlers\<close>

lemma keys_upsert_row:
  "set (map (\<lambda>r. (budget_user_id r, month r)) (upsert_row new rows)) =
     insert (budget_user_id new, month new) (set (map (\<lambda>r. (budget_user_id r, month r)) rows))"
  by (induction rows) (auto simp: same_key_def)

lemma unique_upsert_row: "unique_month rows \<Longrightarrow> unique_month (upsert_row new rows)"
proof (induction rows)
  case Nil
  show ?case by (simp add: unique_month_def)
next
  case (Cons r rs)
  then have rs: "unique_month rs"
    and r: "(budget_user_id r, month r) \<notin> set (map (\<lambda>r. (budget_user_id r, month r)) rs)"
    by (simp_all add: unique_month_def)
  show ?case
  proof (cases "same_key (budget_user_id new) (month new) r")
    case True
    then show ?thesis using Cons.prems by (simp add: unique_month_def)
  next
    case False
    have "(budget_user_id r, month r) \<notin>
        set (map (\<lambda>r. (budget_user_id r, month r)) (upsert_row new rs))"
      unfolding keys_upsert_row using r False by (auto simp: same_key_def)
    moreover have "unique_month (upsert_row new rs)" using rs by (rule Cons.IH)
    ultimately show ?thesis using False by (simp add: unique_month_def)
  qed
qed

lemma filter_key_absent:
  "(u, m) \<notin> set (map (\<lambda>r. (budget_user_id r, month r)) rows) \<Longrightarrow>
     filter (same_key u m) rows = []"
  by (induction rows) (auto simp: same_key_def)

lemma filter_upsert_row:
  assumes "unique_month rows"
  shows "filter (same_key (budget_user_id new) (month new)) (upsert_row new rows) =
     [\<lparr>budget_user_id = budget_user_id new, month = month new, limit_amount = limit_amount new\<rparr>]"
  using assms
proof (induction rows)
  case Nil
  show ?case by (simp add: same_key_def)
next
  case (Cons r rs)
  then have rs: "unique_month rs"
    and r: "(budget_user_id r, month r) \<notin> set (map (\<lambda>r. (budget_user_id r, month r)) rs)"
    by (simp_all add: unique_month_def)
  show ?case
  proof (cases "same_key (budget_user_id new) (month new) r")
    case True
    then have "filter (same_key (budget_user_id new) (month new)) rs = []"
      using r by (intro filter_key_absent) (simp add: same_key_def)
    moreover have "same_key (budget_user_id new) (month new)
        (r\<lparr>limit_amount := limit_amount new\<rparr>)"
      using True by (simp add: same_key_def)
    moreover have "r\<lparr>limit_amount := limit_amount new\<rparr> =
        \<lparr>budget_user_id = budget_user_id new, month = month new,
         limit_amount = limit_amount new\<rparr>"
      using True by (simp add: same_key_def)
    ultimately show ?thesis using True by simp
  next
    case False
    then show ?thesis using Cons.IH [OF rs] by simp
  qed
qed

lemma filter_others_upsert_row:
  "filter (\<lambda>r. \<not> same_key (budget_user_id new) (month new) r) (upsert_row new rows) =
     filter (\<lambda>r. \<not> same_key (budget_user_id new) (month new) r) rows"
  by (induction rows) (auto simp: same_key_def)

lemma month_key_same_month:
  "getFullYear tz1 t1 = getFullYear tz2 t2 \<Longrightarrow> getMonth tz1 t1 = getMonth tz2 t2 \<Longrightarrow>
     month_key tz1 t1 = month_key tz2 t2"
  by (simp add: month_key_def)

lemma handleSetBudget_success:
  assumes "env_user e = Some u" "\<not> env_mutation_fails e"
    and "parseFloat s = Finite a" "0 < a"
  shows "tbl_budgets (fst (fst (handleSetBudget e s (st, ui)))) =
      upsert_row \<lparr>budget_user_id = u, month = month_key (env_tz e) (env_now e), limit_amount = a\<rparr>
        (tbl_budgets st)"
    and "snd (handleSetBudget e s (st, ui)) =
      [GetUser, UpsertBudget u (month_key (env_tz e) (env_now e)) (Finite a),
       ToastSuccess ''Budget set successfully'',
       SelectBudget (month_key (env_tz e) (env_now e))]"
  using assms
  by (simp_all add: handleSetBudget_def isNaN_def le_zero_def upsert_budget_def fetchBudget_def
      Let_def split: prod.split)

lemma string_of_nat_4:
  assumes "1000 \<le> n" "n \<le> 9999"
  shows "length (string_of_nat n) = 4"
proof -
  have a: "\<not> n < 10" "\<not> n div 10 < 10" "\<not> n div 10 div 10 < 10" "n div 10 div 10 div 10 < 10"
    using assms by simp_all
  show ?thesis
    by (subst string_of_nat.simps, simp only: a if_False,
        subst string_of_nat.simps, simp only: a if_False,
        subst string_of_nat.simps, simp only: a if_False,
        subst string_of_nat.simps, simp only: a if_True) simp
qed

lemma month_key_first_day:
  assumes "1000 \<le> getFullYear tz now" "getFullYear tz now \<le> 9999"
  shows "month_key tz now = iso_date (getFullYear tz now, getMonth tz now + 1, 1)"
proof -
  obtain y m d where c: "civil_from_days (Day (LocalTime tz now)) = (y, m, d)"
    by (rule prod_cases3)
  from civil_from_days_range [OF c] have m: "1 \<le> m" "m \<le> 12" by simp_all
  have y: "getFullYear tz now = y" and gm: "getMonth tz now + 1 = m"
    by (simp_all add: getFullYear_def getMonth_def c)
  from assms have yr: "1000 \<le> y" "y \<le> 9999" by (simp_all add: y)
  then have "length (string_of_nat (nat y)) = 4" by (intro string_of_nat_4) simp_all
  then have iy: "iso_year y = string_of_nat (nat y)"
    using yr by (simp add: iso_year_def padStart_def)
  have sy: "string_of_int y = string_of_nat (nat y)" using yr by (simp add: string_of_int_def)
  have sm: "string_of_int m = string_of_nat (nat m)" using m by (simp add: string_of_int_def)
  have d1: "padStart 2 CHR ''0'' ''1'' = ''01''"
    by (simp add: padStart_def)
  show ?thesis
    unfolding month_key_def iso_date_def y gm
    by (simp add: iy sy sm d1)
qed

text \<open>
  Claim C6. Two successful set-budget operations in a row by one user in one local
  month, on a table that satisfies its constraint \<open>UNIQUE(user_id, month)\<close>, leave
  exactly one row for the key (user, month), with the second limit; the table still
  satisfies the constraint and the rows of other keys are as before. The month of
  the key is the date string of the first day of the local month of "now" (for a
  year of four digits).
\<close>

theorem upsert_budget_twice:
  assumes "unique_month (tbl_budgets st)"
    and "env_user e1 = Some u" and "env_user e2 = Some u"
    and "\<not> env_mutation_fails e1" and "\<not> env_mutation_fails e2"
    and "parseFloat s1 = Finite a1" and "0 < a1"
    and "parseFloat s2 = Finite a2" and "0 < a2"
    and "getFullYear (env_tz e1) (env_now e1) = getFullYear (env_tz e2) (env_now e2)"
    and "getMonth (env_tz e1) (env_now e1) = getMonth (env_tz e2) (env_now e2)"
  shows "let k = month_key (env_tz e2) (env_now e2);
             st2 = fst (fst (handleSetBudget e2 s2 (fst (handleSetBudget e1 s1 (st, ui)))))
         in filter (same_key u k) (tbl_budgets st2) =
              [\<lparr>budget_user_id = u, month = k, limit_amount = a2\<rparr>] \<and>
            unique_month (tbl_budgets st2) \<and>
            filter (\<lambda>r. \<not> same_key u k r) (tbl_budgets st2) =
              filter (\<lambda>r. \<not> same_key u k r) (tbl_budgets st) \<and>
            (1000 \<le> getFullYear (env_tz e2) (env_now e2) \<and>
             getFullYear (env_tz e2) (env_now e2) \<le> 9999 \<longrightarrow>
               k = iso_date (getFullYear (env_tz e2) (env_now e2),
                             getMonth (env_tz e2) (env_now e2) + 1, 1))"
proof -
  define k where "k = month_key (env_tz e2) (env_now e2)"
  have k1: "month_key (env_tz e1) (env_now e1) = k"
    unfolding k_def using assms(10,11) by (rule month_key_same_month)
  obtain st1 ui1 where r1: "fst (handleSetBudget e1 s1 (st, ui)) = (st1, ui1)"
    by (cases "fst (handleSetBudget e1 s1 (st, ui))")
  define st2 where "st2 = fst (fst (handleSetBudget e2 s2 (st1, ui1)))"
  let ?row1 = "\<lparr>budget_user_id = u, month = k, limit_amount = a1\<rparr>"
  let ?row2 = "\<lparr>budget_user_id = u, month = k, limit_amount = a2\<rparr>"
  have b1: "tbl_budgets st1 = upsert_row ?row1 (tbl_budgets st)"
    using handleSetBudget_success(1) [OF assms(2,4,6,7), of st ui] by (simp add: r1 k1)
  have b2: "tbl_budgets st2 = upsert_row ?row2 (tbl_budgets st1)"
    using handleSetBudget_success(1) [OF assms(3,5,8,9), of st1 ui1] by (simp add: st2_def k_def)
  have u1: "unique_month (tbl_budgets st1)"
    unfolding b1 using assms(1) by (rule unique_upsert_row)
  have one: "filter (same_key u k) (tbl_budgets st2) = [?row2]"
    unfolding b2 using filter_upsert_row [OF u1, of ?row2] by simp
  have uniq: "unique_month (tbl_budgets st2)"
    unfolding b2 using u1 by (rule unique_upsert_row)
  have others: "filter (\<lambda>r. \<not> same_key u k r) (tbl_budgets st2) =
      filter (\<lambda>r. \<not> same_key u k r) (tbl_budgets st)"
    unfolding b2 b1
    using filter_others_upsert_row [of ?row2 "upsert_row ?row1 (tbl_budgets st)"]
      filter_others_upsert_row [of ?row1 "tbl_budgets st"]
    by simp
  have norm: "1000 \<le> getFullYear (env_tz e2) (env_now e2) \<and>
      getFullYear (env_tz e2) (env_now e2) \<le> 9999 \<longrightarrow>
      k = iso_date (getFullYear (env_tz e2) (env_now e2), getMonth (env_tz e2) (env_now e2) + 1, 1)"
    unfolding k_def by (auto intro: month_key_first_day)
  from one uniq others norm show ?thesis
    unfolding Let_def r1 st2_def [symmetric] k_def [symmetric] by (intro conjI)
qed

lemma parse_examples:
  "parseFloat ''100'' = Finite 100"
  "parseFloat ''250.50'' = Finite (501 / 2)"
  "parseFloat ''-3'' = Finite (- 3)"
  "parseFloat ''abc'' = NaN"
  "parseFloat '''' = NaN"
  "parseFloat ''0'' = Finite 0"
  by (simp_all add: parseFloat_def unsigned_literal_def negate_def is_space_def is_digit_def
      nat_of_digits_def digit_val_def exponent_part_def scale10_def Let_def)

lemma example_env_fields:
  "env_user example_env = Some ''u1''" "\<not> env_mutation_fails example_env"
  "\<not> env_query_fails example_env"
  "env_tz example_env = 300" "env_now example_env = mid_march_now"
  "env_user signed_out_env = None"
  "env_tz signed_out_env = 300" "env_now signed_out_env = mid_march_now"
  by (simp_all add: example_env_def signed_out_env_def)

lemma example_budgets:
  "tbl_budgets example_store =
     [\<lparr>budget_user_id = ''u2'', month = ''2024-03-01'', limit_amount = 900\<rparr>,
      \<lparr>budget_user_id = ''u1'', month = ''2024-02-01'', limit_amount = 50\<rparr>]"
  by (simp add: example_store_def)

theorem upsert_budget_twice_witness:
  "unique_month (tbl_budgets example_store) \<and>
   parseFloat ''100'' = Finite 100 \<and> parseFloat ''250.50'' = Finite (501 / 2) \<and>
   month_key (env_tz example_env) (env_now example_env) = ''2024-03-01'' \<and>
   filter (same_key ''u1'' ''2024-03-01'')
     (tbl_budgets (fst (fst (handleSetBudget example_env ''250.50''
        (fst (handleSetBudget example_env ''100'' (example_store, example_bt))))))) =
     [\<lparr>budget_user_id = ''u1'', month = ''2024-03-01'', limit_amount = 501 / 2\<rparr>] \<and>
   filter (\<lambda>r. \<not> same_key ''u1'' ''2024-03-01'' r)
     (tbl_budgets (fst (fst (handleSetBudget example_env ''250.50''
        (fst (handleSetBudget example_env ''100'' (example_store, example_bt))))))) =
     tbl_budgets example_store \<and>
   ''2024-03-01'' = iso_date (2024, 3, 1)"
proof -
  have uq: "unique_month (tbl_budgets example_store)"
    by (simp add: example_budgets unique_month_def)
  have k: "month_key (env_tz example_env) (env_now example_env) = ''2024-03-01''"
    by (simp add: example_env_fields mid_march_key)
  have y: "getFullYear (env_tz example_env) (env_now example_env) = 2024"
    "getMonth (env_tz example_env) (env_now example_env) + 1 = 3"
    by (simp_all add: example_env_fields getFullYear_def getMonth_def mid_march_civil)
  have pos: "(0::rat) < 100" "(0::rat) < 501 / 2" by simp_all
  note t = upsert_budget_twice [OF uq example_env_fields(1) example_env_fields(1)
      example_env_fields(2) example_env_fields(2) parse_examples(1) pos(1)
      parse_examples(2) pos(2) refl refl, of example_bt, unfolded Let_def k y]
  have rest: "filter (\<lambda>r. \<not> same_key ''u1'' ''2024-03-01'' r) (tbl_budgets example_store) =
      tbl_budgets example_store"
    by (simp add: example_budgets same_key_def)
  from t have f1: "filter (same_key ''u1'' ''2024-03-01'')
     (tbl_budgets (fst (fst (handleSetBudget example_env ''250.50''
        (fst (handleSetBudget example_env ''100'' (example_store, example_bt))))))) =
     [\<lparr>budget_user_id = ''u1'', month = ''2024-03-01'', limit_amount = 501 / 2\<rparr>]"
    by (rule conjunct1)
  from t have "filter (\<lambda>r. \<not> same_key ''u1'' ''2024-03-01'' r)
     (tbl_budgets (fst (fst (handleSetBudget example_env ''250.50''
        (fst (handleSetBudget example_env ''100'' (example_store, example_bt))))))) =
     filter (\<lambda>r. \<not> same_key ''u1'' ''2024-03-01'' r) (tbl_budgets example_store)"
    by (rule conjunct1 [OF conjunct2 [OF conjunct2]])
  then have f3: "filter (\<lambda>r. \<not> same_key ''u1'' ''2024-03-01'' r)
     (tbl_budgets (fst (fst (handleSetBudget example_env ''250.50''
        (fst (handleSetBudget example_env ''100'' (example_store, example_bt))))))) =
     tbl_budgets example_store"
    by (simp only: rest)
  have n: "''2024-03-01'' = iso_date (2024, 3, 1)"
    using conjunct2 [OF conjunct2 [OF conjunct2 [OF t]]] by simp
  from uq parse_examples(1,2) k f1 f3 n show ?thesis by (intro conjI)
qed

text \<open>
  Claim C7, as the code has it. A limit string that parseFloat reads as \<open>NaN\<close> or as
  a value that is not strictly positive is rejected at once: the only effect is the
  error toast, before any call of the store, and the store and the component are
  unchanged. Otherwise, with a signed-in user, the upsert is issued for that user,
  the month key and the parsed amount; with no signed-in user the handler stops
  silently after \<open>getUser\<close>, without an upsert.
\<close>

theorem handleSetBudget_validation:
  "(isNaN (parseFloat s) \<or> le_zero (parseFloat s) \<longrightarrow>
      handleSetBudget e s (st, ui) =
        ((st, ui), [ToastError ''Please enter a valid amount''])) \<and>
   (\<not> isNaN (parseFloat s) \<and> \<not> le_zero (parseFloat s) \<longrightarrow>
      (\<forall>u. env_user e = Some u \<longrightarrow>
         take 2 (snd (handleSetBudget e s (st, ui))) =
           [GetUser, UpsertBudget u (month_key (env_tz e) (env_now e)) (parseFloat s)]) \<and>
      (env_user e = None \<longrightarrow> handleSetBudget e s (st, ui) = ((st, ui), [GetUser])))"
  by (auto simp: handleSetBudget_def Let_def fetchBudget_def split: option.split prod.split)

theorem handleSetBudget_validation_witness:
  "handleSetBudget example_env ''abc'' (example_store, example_bt) =
     ((example_store, example_bt), [ToastError ''Please enter a valid amount'']) \<and>
   handleSetBudget example_env ''-3'' (example_store, example_bt) =
     ((example_store, example_bt), [ToastError ''Please enter a valid amount'']) \<and>
   handleSetBudget example_env ''0'' (example_store, example_bt) =
     ((example_store, example_bt), [ToastError ''Please enter a valid amount'']) \<and>
   take 2 (snd (handleSetBudget example_env ''100'' (example_store, example_bt))) =
     [GetUser, UpsertBudget ''u1'' ''2024-03-01'' (Finite 100)]"
proof -
  note v = handleSetBudget_validation [of _ example_env example_store example_bt]
  have a: "handleSetBudget example_env ''abc'' (example_store, example_bt) =
     ((example_store, example_bt), [ToastError ''Please enter a valid amount''])"
    using v [of "''abc''"] by (simp add: parse_examples isNaN_def)
  have b: "handleSetBudget example_env ''-3'' (example_store, example_bt) =
     ((example_store, example_bt), [ToastError ''Please enter a valid amount''])"
    using v [of "''-3''"] by (simp add: parse_examples le_zero_def)
  have c: "handleSetBudget example_env ''0'' (example_store, example_bt) =
     ((example_store, example_bt), [ToastError ''Please enter a valid amount''])"
    using v [of "''0''"] by (simp add: parse_examples le_zero_def)
  have d: "take 2 (snd (handleSetBudget example_env ''100'' (example_store, example_bt))) =
     [GetUser, UpsertBudget ''u1'' ''2024-03-01'' (Finite 100)]"
    using v [of "''100''"]
    by (simp add: parse_examples isNaN_def le_zero_def example_env_fields mid_march_key)
  from a b c d show ?thesis by (intro conjI)
qed

text \<open>
  Claim C7 as stated fails where no user is signed in: the limit "100" is valid, and
  no upsert is issued.
\<close>

theorem handleSetBudget_signed_out_counterexample:
  "gt_zero (parseFloat ''100'') \<and>
   handleSetBudget signed_out_env ''100'' (example_store, example_bt) =
     ((example_store, example_bt), [GetUser]) \<and>
   list_all (\<lambda>f. \<not> is_mutation f)
     (snd (handleSetBudget signed_out_env ''100'' (example_store, example_bt)))"
  by (simp add: parse_examples gt_zero_def handleSetBudget_def isNaN_def le_zero_def
      example_env_fields is_mutation_def)

section \<open>Properties of the expense form\<close>

lemma handleSubmit_issue:
  "expenseSchema_issues (parseFloat (f_amount fd)) fd = msg # others \<Longrightarrow>
     handleSubmit e editing fd st = (st, [ToastError msg])"
  by (simp add: handleSubmit_def)

lemma valid_fields:
  "amount_issues (parseFloat ''12.50'') = []"
  "category_issues ''123e4567-e89b-12d3-a456-426614174000'' = []"
  "date_issues ''2024-03-02'' = []"
  by (simp_all add: amount_issues_def category_issues_def date_issues_def is_uuid_def is_hex_def
      isNaN_def gt_zero_def parseFloat_def unsigned_literal_def is_space_def is_digit_def
      nat_of_digits_def digit_val_def exponent_part_def scale10_def Let_def)

text \<open>
  Claim C8, as the code has it. The form requires a description: when the other
  fields (amount, category, date) pass the schema, an empty description makes
  handleSubmit reject the submission with "Description is required", with no call
  of the store and the store unchanged, for a new expense and for an edit alike; a
  description of 1 to 200 characters passes the schema.
\<close>

theorem description_is_required:
  assumes "amount_issues (parseFloat (f_amount fd)) = []"
    and "category_issues (f_category_id fd) = []"
    and "date_issues (f_date fd) = []"
  shows "(f_description fd = [] \<longrightarrow>
            handleSubmit e editing fd st = (st, [ToastError ''Description is required''])) \<and>
         (1 \<le> length (f_description fd) \<and> length (f_description fd) \<le> 200 \<longrightarrow>
            expenseSchema_issues (parseFloat (f_amount fd)) fd = [])"
proof (intro conjI impI)
  assume "f_description fd = []"
  then have "expenseSchema_issues (parseFloat (f_amount fd)) fd = [''Description is required'']"
    using assms by (simp add: expenseSchema_issues_def description_issues_def)
  then show "handleSubmit e editing fd st = (st, [ToastError ''Description is required''])"
    by (rule handleSubmit_issue)
next
  assume "1 \<le> length (f_description fd) \<and> length (f_description fd) \<le> 200"
  then show "expenseSchema_issues (parseFloat (f_amount fd)) fd = []"
    using assms by (auto simp: expenseSchema_issues_def description_issues_def)
qed

lemma form_fields:
  "f_amount no_description_form = ''12.50''" "f_description no_description_form = []"
  "f_category_id no_description_form = ''123e4567-e89b-12d3-a456-426614174000''"
  "f_date no_description_form = ''2024-03-02''"
  "f_amount described_form = ''12.50''" "f_description described_form = ''Lunch''"
  "f_category_id described_form = ''123e4567-e89b-12d3-a456-426614174000''"
  "f_date described_form = ''2024-03-02''"
  by (simp_all add: no_description_form_def described_form_def)

theorem description_is_required_witness:
  "amount_issues (parseFloat (f_amount no_description_form)) = [] \<and>
   category_issues (f_category_id no_description_form) = [] \<and>
   date_issues (f_date no_description_form) = [] \<and>
   handleSubmit example_env None no_description_form example_db =
     (example_db, [ToastError ''Description is required'']) \<and>
   expenseSchema_issues (parseFloat (f_amount described_form)) described_form = []"
proof -
  have a: "amount_issues (parseFloat (f_amount no_description_form)) = []"
    "category_issues (f_category_id no_description_form) = []"
    "date_issues (f_date no_description_form) = []"
    by (simp_all only: form_fields valid_fields)
  have b: "amount_issues (parseFloat (f_amount described_form)) = []"
    "category_issues (f_category_id described_form) = []"
    "date_issues (f_date described_form) = []"
    by (simp_all only: form_fields valid_fields)
  have "handleSubmit example_env None no_description_form example_db =
     (example_db, [ToastError ''Description is required''])"
    using description_is_required [OF a, of example_env None example_db]
    by (simp add: form_fields)
  moreover have "expenseSchema_issues (parseFloat (f_amount described_form)) described_form = []"
    using description_is_required [OF b, of example_env None example_db]
    by (simp add: form_fields)
  ultimately show ?thesis using a by (intro conjI)
qed

text \<open>
  Claim C8 as stated fails: a new expense with a valid amount, category and date and
  an empty description is rejected by the schema, and nothing is sent to the store.
\<close>

theorem empty_description_rejected_counterexample:
  "amount_issues (parseFloat (f_amount no_description_form)) = [] \<and>
   category_issues (f_category_id no_description_form) = [] \<and>
   date_issues (f_date no_description_form) = [] \<and>
   f_description no_description_form = [] \<and>
   handleSubmit example_env None no_description_form example_db =
     (example_db, [ToastError ''Description is required''])"
proof -
  have "expenseSchema_issues (parseFloat (f_amount no_description_form)) no_description_form =
      [''Description is required'']"
    by (simp add: expenseSchema_issues_def description_issues_def form_fields valid_fields)
  then have "handleSubmit example_env None no_description_form example_db =
     (example_db, [ToastError ''Description is required''])"
    by (rule handleSubmit_issue)
  then show ?thesis by (simp add: form_fields valid_fields)
qed

section \<open>Properties of the page: what is fetched, and when\<close>

lemma length_select_all: "length (select_all_expenses uid st) = length (own_expenses uid st)"
  by (simp add: select_all_expenses_def order_date_desc_def)

lemma mset_select_all:
  "mset (select_all_expenses uid st) = mset (map (join_category st) (own_expenses uid st))"
  by (simp add: select_all_expenses_def order_date_desc_def)

lemma sorted_select_all:
  "sorted (map (\<lambda>e. date_sort_key (date e)) (rev (select_all_expenses uid st)))"
  by (simp add: select_all_expenses_def order_date_desc_def)

lemma length_page: "length (select_expenses_page uid st) \<le> 50"
  by (simp add: select_expenses_page_def)

lemma step_list_bound:
  assumes "length (app_list a) \<le> 50"
  shows "length (app_list (fst (step e ev a))) \<le> 50"
proof (cases ev)
  case MountExpenseList
  then show ?thesis using assms length_page by (simp add: step_def fetchExpenses_def)
next
  case RealtimeChange
  then show ?thesis using assms length_page by (simp add: step_def fetchExpenses_def)
qed (use assms in \<open>simp_all add: step_def split: prod.split\<close>)

lemma fst_run_Cons: "fst (run ((e, ev) # evs) a) = fst (run evs (fst (step e ev a)))"
  by (simp add: case_prod_unfold)

lemma snd_run_Cons:
  "snd (run ((e, ev) # evs) a) = snd (step e ev a) @ snd (run evs (fst (step e ev a)))"
  by (simp add: case_prod_unfold)

lemma run_list_bound:
  "length (app_list a) \<le> 50 \<Longrightarrow> length (app_list (fst (run evs a))) \<le> 50"
proof (induction evs arbitrary: a)
  case Nil
  then show ?case by simp
next
  case (Cons p evs)
  obtain e ev where p: "p = (e, ev)" by (cases p)
  have "length (app_list (fst (step e ev a))) \<le> 50" using Cons.prems by (rule step_list_bound)
  from Cons.IH [OF this] show ?case unfolding p fst_run_Cons .
qed

text \<open>
  Claim C10. Whatever the events, the expense list holds at most 50 expenses: each
  of its fetches takes the first 50 rows of the user's expenses ordered by date,
  latest first. The dashboard computes its four aggregates over all of these rows,
  as many as the user has. With more than 50 expenses the list holds 50 and the
  dashboard aggregates over more.
\<close>

theorem list_holds_50_dashboard_all:
  "length (app_list (fst (run evs (initial_app st0)))) \<le> 50 \<and>
   select_expenses_page uid st = take 50 (select_all_expenses uid st) \<and>
   sorted (map (\<lambda>e. date_sort_key (date e)) (rev (select_all_expenses uid st))) \<and>
   mset (select_all_expenses uid st) = mset (map (join_category st) (own_expenses uid st)) \<and>
   (\<not> env_query_fails e \<longrightarrow>
      fst (fetchExpenses e st shown) = take 50 (select_all_expenses (env_user e) st) \<and>
      fst (fetchDashboardData e st stats) =
        \<lparr>ds_totalExpenses = totalExpenses (select_all_expenses (env_user e) st),
         ds_monthlyExpenses =
           monthlyExpenses (env_tz e) (env_now e) (select_all_expenses (env_user e) st),
         ds_categorySummary = categorySummary (select_all_expenses (env_user e) st),
         ds_dailyTrend = dailyTrend (env_tz e) (env_now e) (select_all_expenses (env_user e) st)\<rparr>) \<and>
   (50 < length (own_expenses uid st) \<longrightarrow>
      length (select_expenses_page uid st) = 50 \<and>
      length (select_expenses_page uid st) < length (select_all_expenses uid st))"
proof -
  have "length (app_list (initial_app st0)) \<le> 50" by (simp add: initial_app_def)
  then have a: "length (app_list (fst (run evs (initial_app st0)))) \<le> 50"
    by (rule run_list_bound)
  have b: "select_expenses_page uid st = take 50 (select_all_expenses uid st)"
    by (simp add: select_expenses_page_def)
  have c: "\<not> env_query_fails e \<longrightarrow>
      fst (fetchExpenses e st shown) = take 50 (select_all_expenses (env_user e) st) \<and>
      fst (fetchDashboardData e st stats) =
        \<lparr>ds_totalExpenses = totalExpenses (select_all_expenses (env_user e) st),
         ds_monthlyExpenses =
           monthlyExpenses (env_tz e) (env_now e) (select_all_expenses (env_user e) st),
         ds_categorySummary = categorySummary (select_all_expenses (env_user e) st),
         ds_dailyTrend = dailyTrend (env_tz e) (env_now e) (select_all_expenses (env_user e) st)\<rparr>"
    by (simp add: fetchExpenses_def fetchDashboardData_def select_expenses_page_def Let_def)
  have d: "50 < length (own_expenses uid st) \<longrightarrow>
      length (select_expenses_page uid st) = 50 \<and>
      length (select_expenses_page uid st) < length (select_all_expenses uid st)"
    by (simp add: select_expenses_page_def length_select_all)
  from a b sorted_select_all mset_select_all c d show ?thesis by (intro conjI)
qed

theorem list_holds_50_dashboard_all_witness:
  "50 < length (own_expenses (Some ''u1'') many_db) \<and>
   \<not> env_query_fails example_env \<and>
   length (app_list (fst (run [(example_env, MountExpenseList)] (initial_app many_db)))) = 50 \<and>
   length (select_expenses_page (Some ''u1'') many_db) = 50 \<and>
   length (select_all_expenses (Some ''u1'') many_db) = 51 \<and>
   ds_totalExpenses (fst (fetchDashboardData example_env many_db
      (app_stats (initial_app many_db)))) = 51"
proof -
  have own: "own_expenses (Some ''u1'') many_db = replicate 51 (mk_row ''e1'' 1 ''2024-03-01'' None)"
    by (simp add: own_expenses_def many_db_def mk_row_def)
  then have n: "50 < length (own_expenses (Some ''u1'') many_db)" by simp
  have q: "\<not> env_query_fails example_env" "env_user example_env = Some ''u1''"
    by (simp_all add: example_env_def)
  note t = list_holds_50_dashboard_all [of "[(example_env, MountExpenseList)]" many_db
      "Some ''u1''" many_db example_env "[]" "app_stats (initial_app many_db)"]
  from t n have p: "length (select_expenses_page (Some ''u1'') many_db) = 50" by blast
  have all: "length (select_all_expenses (Some ''u1'') many_db) = 51"
    by (simp add: length_select_all own)
  have "fst (fetchExpenses example_env many_db []) = select_expenses_page (Some ''u1'') many_db"
    by (simp add: fetchExpenses_def q)
  then have l: "length (app_list (fst (run [(example_env, MountExpenseList)]
      (initial_app many_db)))) = 50"
    using p unfolding fst_run_Cons by (simp add: step_def initial_app_def case_prod_unfold)
  have "sum_list (map amount (select_all_expenses (Some ''u1'') many_db)) =
      sum_mset (image_mset amount (mset (map (join_category many_db)
        (own_expenses (Some ''u1'') many_db))))"
    unfolding mset_select_all [symmetric] by (metis mset_map sum_mset_sum_list)
  also have "\<dots> = 51"
    by (simp add: own join_category_def mk_row_def)
  finally have sl: "sum_list (map amount (select_all_expenses (Some ''u1'') many_db)) = 51" .
  have "set (select_all_expenses (Some ''u1'') many_db) =
      set (map (join_category many_db) (own_expenses (Some ''u1'') many_db))"
    using mset_select_all [of "Some ''u1''" many_db] by (rule mset_eq_setD)
  then have w: "\<forall>e \<in> set (select_all_expenses (Some ''u1'') many_db). amount e \<in> \<nat>"
    by (simp add: own join_category_def mk_row_def)
  have "totalExpenses (select_all_expenses (Some ''u1'') many_db) = 51"
    using sum_amounts_whole [OF w] sl by (simp add: totalExpenses_def)
  then have s: "ds_totalExpenses (fst (fetchDashboardData example_env many_db
      (app_stats (initial_app many_db)))) = 51"
    by (simp add: fetchDashboardData_def q Let_def)
  from n q(1) l p all s show ?thesis by (intro conjI)
qed

lemma handleDelete_effects:
  "snd (handleDelete e i st) =
     [DeleteExpense i,
      if env_mutation_fails e then ToastError ''Failed to delete expense''
      else ToastSuccess ''Expense deleted'']"
  by (simp add: handleDelete_def delete_expense_def)

lemma handleSubmit_no_select: "list_all (\<lambda>f. \<not> is_select f) (snd (handleSubmit e editing fd st))"
  by (simp add: handleSubmit_def Let_def is_select_def
      split: list.split option.split)

lemma handleSetBudget_effects:
  "set (snd (handleSetBudget e s (st, ui))) \<subseteq>
     {GetUser, ToastError ''Please enter a valid amount'', ToastError ''Failed to set budget'',
      ToastSuccess ''Budget set successfully'', SelectBudget (month_key (env_tz e) (env_now e))} \<union>
     range (\<lambda>(u, l). UpsertBudget u (month_key (env_tz e) (env_now e)) l)"
  by (auto simp: handleSetBudget_def Let_def fetchBudget_def split: option.split prod.split)

text \<open>
  Claim C9, as the code has it. A successful upsert of a budget is followed, in the
  same handler, by the re-fetch of the budget. The handlers that delete, create or
  update an expense issue no select at all; the expense list is fetched again when
  a change notification of the store arrives, and each notification runs exactly
  one fetch of the list. The dashboard's select is issued by the mount of the
  dashboard and by nothing else, and the budget card's monthly spend by the mount
  of the budget card and by nothing else.
\<close>

theorem refetch_after_mutation:
  "(\<forall>u v. env_user e = Some u \<and> \<not> env_mutation_fails e \<and> parseFloat s = Finite v \<and> 0 < v \<longrightarrow>
      snd (step e (SubmitBudget s) a) =
        [GetUser, UpsertBudget u (month_key (env_tz e) (env_now e)) (Finite v),
         ToastSuccess ''Budget set successfully'',
         SelectBudget (month_key (env_tz e) (env_now e))] \<and>
      refetch_follows (snd (step e (SubmitBudget s) a))) \<and>
   list_all (\<lambda>f. \<not> is_select f) (snd (step e (ClickDelete i) a)) \<and>
   list_all (\<lambda>f. \<not> is_select f) (snd (step e (SubmitExpense editing fd) a)) \<and>
   snd (step e RealtimeChange a) = [SelectExpensesPage] \<and>
   (SelectAllExpenses \<in> set (snd (step e ev a)) \<longleftrightarrow> ev = MountDashboard) \<and>
   (SelectMonthlySpending (month_key (env_tz e) (env_now e)) \<in> set (snd (step e ev a)) \<longleftrightarrow>
      ev = MountBudgetTracker)"
proof -
  have budget: "\<forall>u v. env_user e = Some u \<and> \<not> env_mutation_fails e \<and>
      parseFloat s = Finite v \<and> 0 < v \<longrightarrow>
      snd (step e (SubmitBudget s) a) =
        [GetUser, UpsertBudget u (month_key (env_tz e) (env_now e)) (Finite v),
         ToastSuccess ''Budget set successfully'',
         SelectBudget (month_key (env_tz e) (env_now e))] \<and>
      refetch_follows (snd (step e (SubmitBudget s) a))"
  proof (intro allI impI)
    fix u v
    assume h: "env_user e = Some u \<and> \<not> env_mutation_fails e \<and> parseFloat s = Finite v \<and> 0 < v"
    then have "snd (handleSetBudget e s (app_store a, app_bt a)) =
        [GetUser, UpsertBudget u (month_key (env_tz e) (env_now e)) (Finite v),
         ToastSuccess ''Budget set successfully'',
         SelectBudget (month_key (env_tz e) (env_now e))]"
      by (intro handleSetBudget_success(2)) simp_all
    then have fx: "snd (step e (SubmitBudget s) a) =
        [GetUser, UpsertBudget u (month_key (env_tz e) (env_now e)) (Finite v),
         ToastSuccess ''Budget set successfully'',
         SelectBudget (month_key (env_tz e) (env_now e))]"
      by (simp add: step_def case_prod_unfold)
    show "snd (step e (SubmitBudget s) a) =
        [GetUser, UpsertBudget u (month_key (env_tz e) (env_now e)) (Finite v),
         ToastSuccess ''Budget set successfully'',
         SelectBudget (month_key (env_tz e) (env_now e))] \<and>
      refetch_follows (snd (step e (SubmitBudget s) a))"
      unfolding fx by (simp add: is_mutation_def is_select_def)
  qed
  have del: "list_all (\<lambda>f. \<not> is_select f) (snd (step e (ClickDelete i) a))"
    by (simp add: step_def case_prod_unfold handleDelete_effects is_select_def)
  have sub: "list_all (\<lambda>f. \<not> is_select f) (snd (step e (SubmitExpense editing fd) a))"
    using handleSubmit_no_select [of e editing fd "app_store a"]
    by (simp add: step_def case_prod_unfold)
  have rt: "snd (step e RealtimeChange a) = [SelectExpensesPage]"
    by (simp add: step_def fetchExpenses_def)
  have nb: "SelectAllExpenses \<notin> set (snd (handleSetBudget e s' (st, ui)))"
    "SelectMonthlySpending m \<notin> set (snd (handleSetBudget e s' (st, ui)))" for s' st ui m
    using handleSetBudget_effects [of e s' st ui] by auto
  have ns: "SelectAllExpenses \<notin> set (snd (handleSubmit e ed f st))"
    "SelectMonthlySpending m \<notin> set (snd (handleSubmit e ed f st))" for ed f st m
    using handleSubmit_no_select [of e ed f st]
    by (auto simp: list_all_iff is_select_def)
  have dash: "SelectAllExpenses \<in> set (snd (step e ev a)) \<longleftrightarrow> ev = MountDashboard"
    by (cases ev)
      (simp_all add: step_def case_prod_unfold fetchDashboardData_def fetchExpenses_def
        fetchBudget_def fetchMonthlySpendingBT_def handleDelete_effects nb ns Let_def)
  have spend: "SelectMonthlySpending (month_key (env_tz e) (env_now e)) \<in>
      set (snd (step e ev a)) \<longleftrightarrow> ev = MountBudgetTracker"
    by (cases ev)
      (simp_all add: step_def case_prod_unfold fetchDashboardData_def fetchExpenses_def
        fetchBudget_def fetchMonthlySpendingBT_def handleDelete_effects nb ns Let_def)
  from budget del sub rt dash spend show ?thesis by (intro conjI)
qed

lemma parse_example_dates:
  "Date_parse ''2024-03-01'' = Some 1709251200000"
  "Date_parse ''2024-03-02'' = Some 1709337600000"
  "Date_parse ''2024-02-27'' = Some 1708992000000"
  by (simp_all add: Date_parse_def is_digit_def nat_of_digits_def digit_val_def days_in_month_def
      is_leap_def days_from_civil_def msPerDay_def Let_def)

lemma example_page:
  "map expense_id (select_expenses_page (Some ''u1'') example_db) = [''e3'', ''e2'', ''e1'', ''e4'']"
  by (simp add: select_expenses_page_def select_all_expenses_def order_date_desc_def
      own_expenses_def example_db_def example_rows_def mk_row_def join_category_def
      date_sort_key_def parse_example_dates)

theorem refetch_after_mutation_witness:
  "snd (step example_env (SubmitBudget ''100'') (initial_app example_db)) =
     [GetUser, UpsertBudget ''u1'' ''2024-03-01'' (Finite 100),
      ToastSuccess ''Budget set successfully'', SelectBudget ''2024-03-01''] \<and>
   refetch_follows (snd (step example_env (SubmitBudget ''100'') (initial_app example_db))) \<and>
   snd (step example_env (ClickDelete ''e1'') (initial_app example_db)) =
     [DeleteExpense ''e1'', ToastSuccess ''Expense deleted''] \<and>
   snd (step example_env RealtimeChange (initial_app example_db)) = [SelectExpensesPage] \<and>
   SelectAllExpenses \<in> set (snd (step example_env MountDashboard (initial_app example_db)))"
proof -
  have k: "month_key (env_tz example_env) (env_now example_env) = ''2024-03-01''"
    by (simp add: example_env_def mid_march_key)
  note p = parse_examples(1)
  note t = refetch_after_mutation [of example_env "''100''" "initial_app example_db" "''e1''"
      None described_form MountDashboard, unfolded k]
  have b: "snd (step example_env (SubmitBudget ''100'') (initial_app example_db)) =
     [GetUser, UpsertBudget ''u1'' ''2024-03-01'' (Finite 100),
      ToastSuccess ''Budget set successfully'', SelectBudget ''2024-03-01''] \<and>
   refetch_follows (snd (step example_env (SubmitBudget ''100'') (initial_app example_db)))"
  proof (rule conjunct1 [OF t, rule_format])
    show "env_user example_env = Some ''u1'' \<and> \<not> env_mutation_fails example_env \<and>
        parseFloat ''100'' = Finite 100 \<and> (0::rat) < 100"
      using example_env_fields(1-3) p by simp
  qed
  have d: "snd (step example_env (ClickDelete ''e1'') (initial_app example_db)) =
     [DeleteExpense ''e1'', ToastSuccess ''Expense deleted'']"
    by (simp add: step_def case_prod_unfold handleDelete_effects example_env_fields(1-3))
  have r: "snd (step example_env RealtimeChange (initial_app example_db)) = [SelectExpensesPage]"
    using t by blast
  have m: "SelectAllExpenses \<in> set (snd (step example_env MountDashboard (initial_app example_db)))"
    using t by blast
  from conjunct1 [OF b] conjunct2 [OF b] d r m show ?thesis by (intro conjI)
qed

text \<open>
  Claim C9 as stated fails for the deletion of an expense: after the list has been
  fetched, a successful delete removes the row \<open>e1\<close> from the store, and the
  handler issues no select; the list the component holds still has \<open>e1\<close>. A re-fetch
  comes only with a change notification of the store.
\<close>

theorem delete_without_refetch_counterexample:
  "snd (step example_env (ClickDelete ''e1'')
         (fst (step example_env MountExpenseList (initial_app example_db)))) =
     [DeleteExpense ''e1'', ToastSuccess ''Expense deleted''] \<and>
   \<not> refetch_follows (snd (step example_env (ClickDelete ''e1'')
         (fst (step example_env MountExpenseList (initial_app example_db))))) \<and>
   map expense_id (tbl_expenses (app_store (fst (step example_env (ClickDelete ''e1'')
         (fst (step example_env MountExpenseList (initial_app example_db))))))) =
     [''e2'', ''e3'', ''e4''] \<and>
   map expense_id (app_list (fst (step example_env (ClickDelete ''e1'')
         (fst (step example_env MountExpenseList (initial_app example_db)))))) =
     [''e3'', ''e2'', ''e1'', ''e4'']"
proof -
  define a1 where "a1 = fst (step example_env MountExpenseList (initial_app example_db))"
  have l1: "app_list a1 = select_expenses_page (Some ''u1'') example_db"
    and s1: "app_store a1 = example_db"
    by (simp_all add: a1_def step_def fetchExpenses_def initial_app_def example_env_fields(1-3))
  have fx: "snd (step example_env (ClickDelete ''e1'') a1) =
      [DeleteExpense ''e1'', ToastSuccess ''Expense deleted'']"
    by (simp add: step_def case_prod_unfold handleDelete_effects example_env_fields(1-3))
  have nf: "\<not> refetch_follows (snd (step example_env (ClickDelete ''e1'') a1))"
    unfolding fx by (simp add: is_mutation_def is_select_def)
  have st: "map expense_id (tbl_expenses (app_store (fst (step example_env (ClickDelete ''e1'') a1)))) =
      [''e2'', ''e3'', ''e4'']"
    by (simp add: step_def case_prod_unfold handleDelete_def delete_expense_def s1
        example_env_fields(1-3) example_db_def example_rows_def mk_row_def)
  have li: "map expense_id (app_list (fst (step example_env (ClickDelete ''e1'') a1))) =
      [''e3'', ''e2'', ''e1'', ''e4'']"
    by (simp add: step_def case_prod_unfold l1 example_page)
  from fx nf st li show ?thesis unfolding a1_def by (intro conjI)
qed

end
